theory Spec2Isabelle
  imports
    Complex_Main
    "HOL-Library.Multiset"
    "HOL-Library.List_Lexorder"
    "HOL-Library.Char_ord"
begin

section \<open>Strings\<close>

text \<open>
  Python strings are modelled as \<^typ>\<open>string\<close>; a character is a code point below 256.
  The three control characters the report format depends on are named.
\<close>

definition TAB :: char where "TAB = CHR 0x09"
definition LF :: char where "LF = CHR 0x0A"
definition CR :: char where "CR = CHR 0x0D"

text \<open>\<^verbatim>\<open>str.isspace\<close> on the code points below 256: 9-13, 28-32, 133 and 160.\<close>

definition isspace :: "char \<Rightarrow> bool" where
  "isspace c = (c \<in> set [CHR 0x09, CHR 0x0A, CHR 0x0B, CHR 0x0C, CHR 0x0D,
                          CHR 0x1C, CHR 0x1D, CHR 0x1E, CHR 0x1F, CHR 0x20, CHR 0x85, CHR 0xA0])"

text \<open>\<^verbatim>\<open>str.strip()\<close> without argument: whitespace removed at both ends.\<close>

definition lstrip :: "string \<Rightarrow> string" where
  "lstrip s = dropWhile isspace s"

definition rstrip :: "string \<Rightarrow> string" where
  "rstrip s = rev (dropWhile isspace (rev s))"

definition strip :: "string \<Rightarrow> string" where
  "strip s = rstrip (lstrip s)"

text \<open>\<^verbatim>\<open>s.split(c)\<close> for a one-character separator: never empty, \<^verbatim>\<open>''.split(c) == ['']\<close>.\<close>

fun split_sep :: "char \<Rightarrow> string \<Rightarrow> string list" where
  "split_sep c [] = [[]]"
| "split_sep c (x # xs) =
     (if x = c then [] # split_sep c xs
      else (case split_sep c xs of [] \<Rightarrow> [[x]] | y # ys \<Rightarrow> (x # y) # ys))"

text \<open>\<^verbatim>\<open>sep.join(xs)\<close>.\<close>

fun join_sep :: "string \<Rightarrow> string list \<Rightarrow> string" where
  "join_sep sep [] = []"
| "join_sep sep [x] = x"
| "join_sep sep (x # y # ys) = x @ sep @ join_sep sep (y # ys)"

text \<open>\<^verbatim>\<open>str(n)\<close> for an integer, as the f-string of the timeout reason formats it.\<close>

definition digit_char :: "nat \<Rightarrow> char" where
  "digit_char d = ''0123456789'' ! d"

fun str_nat :: "nat \<Rightarrow> string" where
  "str_nat n = (if n < 10 then [digit_char n] else str_nat (n div 10) @ [digit_char (n mod 10)])"

definition str_int :: "int \<Rightarrow> string" where
  "str_int i = (if i < 0 then CHR ''-'' # str_nat (nat (- i)) else str_nat (nat i))"

section \<open>Paths\<close>

text \<open>
  A \<^verbatim>\<open>pathlib.Path\<close> of the POSIX flavour: the root (\<^verbatim>\<open>''\<close>, \<^verbatim>\<open>'/'\<close> or \<^verbatim>\<open>'//'\<close>) and the
  list of components below it. Two paths are compared through \<^verbatim>\<open>_cparts\<close>, the list
  of the root (when there is one) followed by the components: lists compare
  lexicographically, and so do the strings in them.
\<close>

datatype path = PurePath (anchor: string) (names: "string list")

definition cparts :: "path \<Rightarrow> string list" where
  "cparts p = (if anchor p = [] then names p else anchor p # names p)"

text \<open>\<^verbatim>\<open>splitroot\<close>: exactly two leading slashes are kept, any other number is one.\<close>

definition splitroot :: "string \<Rightarrow> string \<times> string" where
  "splitroot part =
     (if part \<noteq> [] \<and> hd part = CHR ''/'' then
        (let stripped_part = dropWhile (\<lambda>c. c = CHR ''/'') part in
         if length part - length stripped_part = 2 then (''//'', stripped_part)
         else (''/'', stripped_part))
      else ([], part))"

text \<open>\<^verbatim>\<open>Path(s)\<close> for one string: empty and \<^verbatim>\<open>'.'\<close> components are dropped.\<close>

definition Path :: "string \<Rightarrow> path" where
  "Path s = (case splitroot s of (r, rel) \<Rightarrow>
     PurePath r (filter (\<lambda>x. x \<noteq> [] \<and> x \<noteq> ''.'') (split_sep CHR ''/'' rel)))"

text \<open>\<^verbatim>\<open>str(p)\<close>.\<close>

definition str_path :: "path \<Rightarrow> string" where
  "str_path p =
     (let s = anchor p @ join_sep ''/'' (names p) in if s = [] then ''.'' else s)"

text \<open>\<^verbatim>\<open>p.name\<close>: the last component, or the empty string when there is none.\<close>

definition name :: "path \<Rightarrow> string" where
  "name p = (if names p = [] then [] else last (names p))"

text \<open>\<^verbatim>\<open>p / s\<close>: an anchored right operand replaces the left one.\<close>

definition joinpath :: "path \<Rightarrow> string \<Rightarrow> path" where
  "joinpath p s =
     (let q = Path s in
      if anchor q \<noteq> [] then q else PurePath (anchor p) (names p @ names q))"

section \<open>The world the program runs in\<close>

text \<open>
  Everything the functions read or change outside their arguments:
  the files that exist, with their text; the module-level \<^verbatim>\<open>STOP_EVENT\<close> and
  \<^verbatim>\<open>ACTIVE_PROCESSES\<close>; the records passed to \<^verbatim>\<open>logging\<close>. Two ghost fields record
  which child processes \<^verbatim>\<open>subprocess.Popen\<close> started and on which \<^verbatim>\<open>terminate()\<close>
  was called. A process handle is a number.
\<close>

type_synonym pid = nat

datatype log_entry = INFO string | WARNING string | ERROR string

record world =
  fs :: "path \<rightharpoonup> string"
  STOP_EVENT :: bool
  ACTIVE_PROCESSES :: "pid set"
  spawned :: "pid set"
  terminated :: "pid set"
  log :: "log_entry list"

definition exists :: "path \<Rightarrow> world \<Rightarrow> bool" where
  "exists p w = (fs w p \<noteq> None)"

definition logging :: "log_entry \<Rightarrow> world \<Rightarrow> world" where
  "logging e w = w\<lparr>log := log w @ [e]\<rparr>"

section \<open>Report files\<close>

text \<open>
  A file opened in text mode for reading translates \<^verbatim>\<open>'\r\n'\<close> and a lone \<^verbatim>\<open>'\r'\<close> to
  \<^verbatim>\<open>'\n'\<close>; iterating over it yields the lines with their terminator. Writing on
  POSIX leaves the text as it is.
\<close>

fun universal_newlines :: "string \<Rightarrow> string" where
  "universal_newlines [] = []"
| "universal_newlines [c] = [if c = CR then LF else c]"
| "universal_newlines (c # d # ds) =
     (if c = CR \<and> d = LF then LF # universal_newlines ds
      else if c = CR then LF # universal_newlines (d # ds)
      else c # universal_newlines (d # ds))"

fun readlines :: "string \<Rightarrow> string list" where
  "readlines [] = []"
| "readlines (x # xs) =
     (if x = LF then [x] # readlines xs
      else (case readlines xs of [] \<Rightarrow> [[x]] | l # ls \<Rightarrow> (x # l) # ls))"

text \<open>
  \<^verbatim>\<open>save_report\<close>. The first argument is the environment: the text of the
  \<^verbatim>\<open>IOError\<close> when opening the file fails.
\<close>

definition report_line :: "path \<times> string \<Rightarrow> string" where
  "report_line x = (case x of (path, reason) \<Rightarrow> str_path path @ [TAB] @ reason @ [LF])"

definition save_report :: "string option \<Rightarrow> path \<Rightarrow> (path \<times> string) list \<Rightarrow> world \<Rightarrow> world" where
  "save_report io_error report_file corrupted_files w =
     (case io_error of
        Some e \<Rightarrow> logging (ERROR (''Could not save report: '' @ e)) w
      | None \<Rightarrow>
          logging (INFO (''Report saved to [bold cyan]'' @ str_path report_file @ ''[/bold cyan]''))
            (w\<lparr>fs := (fs w)(report_file \<mapsto> concat (map report_line corrupted_files))\<rparr>))"

text \<open>The body of the loop of \<^verbatim>\<open>load_report\<close> over the lines of the file.\<close>

definition load_line ::
  "string \<Rightarrow> (path \<times> string) list \<times> world \<Rightarrow> (path \<times> string) list \<times> world" where
  "load_line line cw = (case cw of (corrupted_files, w) \<Rightarrow>
     (let parts = split_sep TAB (strip line) in
      if length parts = 2 then
        (let path = Path (parts ! 0); reason = parts ! 1 in
         if exists path w then (corrupted_files @ [(path, reason)], w)
         else (corrupted_files,
               logging (WARNING (''File listed in report not found, skipping: '' @ str_path path)) w))
      else (corrupted_files, w)))"

fun load_lines ::
  "string list \<Rightarrow> (path \<times> string) list \<times> world \<Rightarrow> (path \<times> string) list \<times> world" where
  "load_lines [] cw = cw"
| "load_lines (line # ls) cw = load_lines ls (load_line line cw)"

definition load_report :: "string option \<Rightarrow> path \<Rightarrow> world \<Rightarrow> (path \<times> string) list \<times> world" where
  "load_report io_error report_file w =
     (case fs w report_file of
        None \<Rightarrow>
          ([], logging (ERROR (''Report file '' @ [CHR 0x27] @ str_path report_file @ [CHR 0x27]
                                 @ '' not found.'')) w)
      | Some content \<Rightarrow>
          (case io_error of
             Some e \<Rightarrow> ([], logging (ERROR (''Could not load report: '' @ e)) w)
           | None \<Rightarrow>
               (case load_lines (readlines (universal_newlines content)) ([], w) of
                  (corrupted_files, w1) \<Rightarrow>
                    (corrupted_files,
                     logging (INFO (''Report loaded from [bold cyan]'' @ str_path report_file
                                      @ ''[/bold cyan]'')) w1))))"

section \<open>The analysis of one file\<close>

text \<open>
  \<^verbatim>\<open>check_video_corruption\<close> returns a triple of the original path, the corruption
  flag and the reason. A call either returns such a verdict or raises.
\<close>

type_synonym verdict = "path \<times> bool \<times> string"

datatype outcome = Returned verdict | Raised string

text \<open>
  What one call meets outside the program is its environment. A \<open>tick\<close> is one
  evaluation of the condition of the polling loop: the value of \<^verbatim>\<open>process.poll()\<close>,
  whether the listener thread has set \<^verbatim>\<open>STOP_EVENT\<close> since the previous tick, and the
  float that \<^verbatim>\<open>time.time() - start_time\<close> evaluates to there, a real number; the
  subtraction of the two floats is the machine's, and Python compares the float with
  the integer timeout exactly. The other fields: the random prefix of the staged
  copy; whether \<^verbatim>\<open>shutil.copy2\<close> fails although the source exists, the text of its
  exception, and the content it has left at the destination when it fails after
  creating it; what \<^verbatim>\<open>subprocess.Popen\<close> does (the handle, or the text of the
  exception); the text of the exception when
  \<^verbatim>\<open>process.terminate(); process.wait(timeout=5)\<close> raises; whether the listener sets
  the flag before the exception handler reads it; the text of the exception when
  \<^verbatim>\<open>local_copy.unlink()\<close> raises.
\<close>

record tick =
  poll :: "int option"
  quit :: bool
  elapsed :: real

record task_env =
  urandom_hex :: string
  copy2_fails :: bool
  copy2_error :: string
  copy2_leaves :: "string option"
  popen :: "string + pid"
  ticks :: "tick list"
  wait_error :: "string option"
  quit_in_handler :: bool
  unlink_error :: "string option"

text \<open>
  The listener thread only ever sets the flag (\<^verbatim>\<open>STOP_EVENT.set()\<close>); nothing in the
  program clears it.
\<close>

definition listener :: "bool \<Rightarrow> world \<Rightarrow> world" where
  "listener key w = (if key then w\<lparr>STOP_EVENT := True\<rparr> else w)"

text \<open>
  \<^verbatim>\<open>shutil.copy2\<close>: the world after a complete copy, or the text of the exception with
  the world it leaves. It fails before creating anything when the source is missing;
  when the environment makes it fail, the destination may exist already, with part
  or all of the content.
\<close>

definition copy2 ::
  "task_env \<Rightarrow> path \<Rightarrow> path \<Rightarrow> world \<Rightarrow> (string \<times> world) + world" where
  "copy2 env src dst w =
     (if \<not> exists src w then Inl (copy2_error env, w)
      else if copy2_fails env then
        Inl (copy2_error env,
             case copy2_leaves env of
               None \<Rightarrow> w
             | Some content \<Rightarrow> w\<lparr>fs := (fs w)(dst \<mapsto> content)\<rparr>)
      else Inr (w\<lparr>fs := (fs w)(dst := fs w src)\<rparr>))"

definition terminate :: "pid \<Rightarrow> world \<Rightarrow> world" where
  "terminate p w = w\<lparr>terminated := insert p (terminated w)\<rparr>"

definition timeout_elapsed :: "int option \<Rightarrow> real \<Rightarrow> bool" where
  "timeout_elapsed ANALYSIS_TIMEOUT e =
     (case ANALYSIS_TIMEOUT of None \<Rightarrow> False | Some s \<Rightarrow> e > real_of_int s)"

definition timeout_reason :: "int option \<Rightarrow> string" where
  "timeout_reason ANALYSIS_TIMEOUT =
     ''Timeout ('' @ (case ANALYSIS_TIMEOUT of None \<Rightarrow> ''None'' | Some s \<Rightarrow> str_int s) @ ''s)''"

text \<open>
  The \<^verbatim>\<open>while process.poll() is None\<close> loop over the ticks of the environment. The
  result is \<open>Inr\<close> of the verdict of a \<^verbatim>\<open>return\<close>, or \<open>Inl\<close> of the text of an
  exception raised inside the loop. What the listener thread did since the previous
  tick has happened when the condition is evaluated, whether or not the loop goes on
  to read the flag. A list of ticks that ends while the process still runs,
  unstopped and within its time, describes a loop that has not returned: \<open>None\<close>.
\<close>

fun poll_loop ::
  "int option \<Rightarrow> task_env \<Rightarrow> path \<Rightarrow> pid \<Rightarrow> tick list \<Rightarrow> world
     \<Rightarrow> ((string + verdict) \<times> world) option" where
  "poll_loop ANALYSIS_TIMEOUT env original_path process [] w = None"
| "poll_loop ANALYSIS_TIMEOUT env original_path process (t # ts) w =
     (let w1 = listener (quit t) w in
      case poll t of
        Some returncode \<Rightarrow>
          Some (Inr (if returncode = 0 then (original_path, False, ''Healthy'')
                     else (original_path, True, ''Corruption detected'')), w1)
      | None \<Rightarrow>
          if STOP_EVENT w1 then
            Some (case wait_error env of
                    Some e \<Rightarrow> Inl e
                  | None \<Rightarrow> Inr (original_path, False, ''Cancelled''),
                  terminate process w1)
          else if timeout_elapsed ANALYSIS_TIMEOUT (elapsed t) then
            Some (case wait_error env of
                    Some e \<Rightarrow> Inl e
                  | None \<Rightarrow> Inr (original_path, True, timeout_reason ANALYSIS_TIMEOUT),
                  terminate process w1)
          else poll_loop ANALYSIS_TIMEOUT env original_path process ts w1)"

text \<open>The \<^verbatim>\<open>except Exception as e\<close> clause.\<close>

definition except_handler :: "task_env \<Rightarrow> path \<Rightarrow> string \<Rightarrow> world \<Rightarrow> verdict \<times> world" where
  "except_handler env original_path e w =
     (let w1 = listener (quit_in_handler env) w in
      (if STOP_EVENT w1 then (original_path, False, ''Cancelled'')
       else (original_path, True, ''Unexpected error: '' @ e), w1))"

text \<open>
  The \<^verbatim>\<open>try\<close> statement with its handler: the verdict to return, the value of the
  variable \<^verbatim>\<open>process\<close>, and the world.
\<close>

definition try_block ::
  "int option \<Rightarrow> task_env \<Rightarrow> path \<Rightarrow> world \<Rightarrow> (verdict \<times> pid option \<times> world) option" where
  "try_block ANALYSIS_TIMEOUT env original_path w =
     (case popen env of
        Inl e \<Rightarrow>
          (case except_handler env original_path e w of (v, w1) \<Rightarrow> Some (v, None, w1))
      | Inr process \<Rightarrow>
          (let w1 = w\<lparr>spawned := insert process (spawned w),
                      ACTIVE_PROCESSES := insert process (ACTIVE_PROCESSES w)\<rparr> in
           case poll_loop ANALYSIS_TIMEOUT env original_path process (ticks env) w1 of
             None \<Rightarrow> None
           | Some (Inl e, w2) \<Rightarrow>
               (case except_handler env original_path e w2 of
                  (v, w3) \<Rightarrow> Some (v, Some process, w3))
           | Some (Inr v, w2) \<Rightarrow> Some (v, Some process, w2)))"

text \<open>
  The \<^verbatim>\<open>finally\<close> clause: the process leaves the registry, then the staged copy is
  unlinked if it still exists. An exception of \<^verbatim>\<open>unlink\<close> is not caught there: it
  replaces the verdict.
\<close>

definition deregister :: "pid option \<Rightarrow> world \<Rightarrow> world" where
  "deregister process w =
     (case process of
        None \<Rightarrow> w
      | Some p \<Rightarrow> w\<lparr>ACTIVE_PROCESSES := ACTIVE_PROCESSES w - {p}\<rparr>)"

definition unstage :: "task_env \<Rightarrow> path option \<Rightarrow> world \<Rightarrow> string option \<times> world" where
  "unstage env local_copy w =
     (case local_copy of
        None \<Rightarrow> (None, w)
      | Some lc \<Rightarrow>
          if exists lc w then
            (case unlink_error env of
               Some e \<Rightarrow> (Some e, w)
             | None \<Rightarrow> (None, w\<lparr>fs := (fs w)(lc := None)\<rparr>))
          else (None, w))"

definition finally_block ::
  "task_env \<Rightarrow> pid option \<Rightarrow> path option \<Rightarrow> verdict \<Rightarrow> world \<Rightarrow> outcome \<times> world" where
  "finally_block env process local_copy v w =
     (case unstage env local_copy (deregister process w) of
        (Some e, w1) \<Rightarrow> (Raised e, w1)
      | (None, w1) \<Rightarrow> (Returned v, w1))"

definition analyse ::
  "int option \<Rightarrow> task_env \<Rightarrow> path \<Rightarrow> path option \<Rightarrow> world \<Rightarrow> (outcome \<times> world) option" where
  "analyse ANALYSIS_TIMEOUT env original_path local_copy w =
     (case try_block ANALYSIS_TIMEOUT env original_path w of
        None \<Rightarrow> None
      | Some (v, process, w1) \<Rightarrow> Some (finally_block env process local_copy v w1))"

text \<open>
  \<^verbatim>\<open>check_video_corruption\<close>. The global \<^verbatim>\<open>ANALYSIS_TIMEOUT\<close> and the environment come
  first. The command line handed to \<^verbatim>\<open>Popen\<close> names the staged copy or the original;
  what the verifier does with it is the environment's.
\<close>

definition check_video_corruption ::
  "int option \<Rightarrow> task_env \<Rightarrow> path \<Rightarrow> bool \<Rightarrow> string \<Rightarrow> world \<Rightarrow> (outcome \<times> world) option" where
  "check_video_corruption ANALYSIS_TIMEOUT env original_path use_cache temp_dir w =
     (if use_cache then
        (let local_copy = joinpath (Path temp_dir) (urandom_hex env @ ''-'' @ name original_path) in
         case copy2 env original_path local_copy w of
           Inl (e, w1) \<Rightarrow>
             Some (Returned (original_path, True, ''Local copy error: '' @ e), w1)
         | Inr w1 \<Rightarrow> analyse ANALYSIS_TIMEOUT env original_path (Some local_copy) w1)
      else analyse ANALYSIS_TIMEOUT env original_path None w)"

section \<open>The worker pool\<close>

text \<open>
  \<^verbatim>\<open>cleanup_active_processes\<close>: every registered process is asked to terminate,
  exceptions are swallowed, and the registry is cleared.
\<close>

definition cleanup_active_processes :: "world \<Rightarrow> world" where
  "cleanup_active_processes w =
     (if ACTIVE_PROCESSES w = {} then w
      else w\<lparr>terminated := terminated w \<union> ACTIVE_PROCESSES w, ACTIVE_PROCESSES := {}\<rparr>)"

text \<open>
  The environment of \<^verbatim>\<open>run_analysis\<close>: the name of the temporary directory, the
  environment of the task submitted at each position, the order in which
  \<^verbatim>\<open>as_completed\<close> yields the submitted futures, and whether the listener thread sets
  \<^verbatim>\<open>STOP_EVENT\<close> just before the pool reads it for the \<open>n\<close>-th time.

  The local variables of \<^verbatim>\<open>run_analysis\<close> are \<^verbatim>\<open>corrupted_files\<close> and the progress
  counter; the ghost field \<open>results\<close> lists what \<^verbatim>\<open>future.result()\<close> gave, in order.
\<close>

record pool_env =
  mkdtemp :: string
  env_of :: "nat \<Rightarrow> task_env"
  as_completed :: "(nat \<times> path) list \<Rightarrow> (nat \<times> path) list"
  quit_key :: "nat \<Rightarrow> bool"

record pool_state =
  corrupted_files :: "(path \<times> string) list"
  progress :: nat
  results :: "outcome list"

datatype error = ValueError string

text \<open>\<^verbatim>\<open>if is_corrupted: corrupted_files.append((path, reason))\<close>.\<close>

definition record_verdict :: "(path \<times> string) list \<Rightarrow> verdict \<Rightarrow> (path \<times> string) list" where
  "record_verdict cf v =
     (case v of (path, is_corrupted, reason) \<Rightarrow>
        if is_corrupted then cf @ [(path, reason)] else cf)"

text \<open>The body of the harvesting loop after the check of the stop flag.\<close>

definition harvest_result :: "outcome \<Rightarrow> pool_state \<times> world \<Rightarrow> pool_state \<times> world" where
  "harvest_result out sw = (case sw of (s, w) \<Rightarrow>
     (case out of
        Returned v \<Rightarrow>
          (s\<lparr>corrupted_files := record_verdict (corrupted_files s) v,
             progress := progress s + 1, results := results s @ [out]\<rparr>, w)
      | Raised e \<Rightarrow>
          (s\<lparr>progress := progress s + 1, results := results s @ [out]\<rparr>,
           logging (ERROR (''An analysis task failed: '' @ e)) w)))"

text \<open>
  The loop \<^verbatim>\<open>for future in as_completed(future_to_file)\<close>. The workers are run one
  after the other, each when the pool harvests it; a worker that never returns
  blocks the pool. Leaving the loop at \<^verbatim>\<open>break\<close> abandons the futures not yet
  harvested.
\<close>

fun harvest ::
  "int option \<Rightarrow> pool_env \<Rightarrow> bool \<Rightarrow> (nat \<times> path) list \<Rightarrow> pool_state \<times> world
     \<Rightarrow> (pool_state \<times> world) option" where
  "harvest ANALYSIS_TIMEOUT env use_cache [] sw = Some sw"
| "harvest ANALYSIS_TIMEOUT env use_cache ((i, file) # futures) (s, w) =
     (case check_video_corruption ANALYSIS_TIMEOUT (env_of env i) file use_cache (mkdtemp env) w of
        None \<Rightarrow> None
      | Some (out, w1) \<Rightarrow>
          (let w2 = listener (quit_key env (progress s)) w1 in
           if STOP_EVENT w2 then Some (s, w2)
           else harvest ANALYSIS_TIMEOUT env use_cache futures (harvest_result out (s, w2))))"

text \<open>\<^verbatim>\<open>sorted(corrupted_files, key=lambda x: x[0])\<close>: stable, by the order of paths.\<close>

definition sorted_by_path :: "(path \<times> string) list \<Rightarrow> (path \<times> string) list" where
  "sorted_by_path cf = sort_key (\<lambda>x. cparts (fst x)) cf"

text \<open>
  \<^verbatim>\<open>run_analysis\<close>. \<^verbatim>\<open>ThreadPoolExecutor\<close> refuses a pool of no workers. The result
  comes with the local variables and the world at the \<^verbatim>\<open>return\<close>.
\<close>

definition run_analysis ::
  "int option \<Rightarrow> pool_env \<Rightarrow> path list \<Rightarrow> bool \<Rightarrow> int \<Rightarrow> world
     \<Rightarrow> ((error + (path \<times> string) list) \<times> pool_state \<times> world) option" where
  "run_analysis ANALYSIS_TIMEOUT env video_files use_cache workers w =
     (let s0 = \<lparr>corrupted_files = [], progress = 0, results = []\<rparr> in
      if workers \<le> 0 then
        Some (Inl (ValueError ''max_workers must be greater than 0''), s0, w)
      else
        (case harvest ANALYSIS_TIMEOUT env use_cache
                (as_completed env (enumerate 0 video_files)) (s0, w) of
           None \<Rightarrow> None
         | Some (s, w1) \<Rightarrow>
             (let w2 = listener (quit_key env (progress s)) w1 in
              if STOP_EVENT w2 then Some (Inr [], s, cleanup_active_processes w2)
              else Some (Inr (sorted_by_path (corrupted_files s)), s, w2))))"

text \<open>
  The aggregation of a sequence of verdicts: what the loop body and the final
  \<^verbatim>\<open>sorted\<close> make of them.
\<close>

definition aggregate :: "verdict list \<Rightarrow> (path \<times> string) list" where
  "aggregate verdicts = sorted_by_path (foldl record_verdict [] verdicts)"

section \<open>Notions used in the properties\<close>

text \<open>
  A string is plain when it holds no tab, line feed or carriage return. A record of
  the report is storable when its path is what \<^verbatim>\<open>Path\<close> makes of its own string, that
  string is plain and starts with no whitespace, and the reason is plain, not empty
  and ends with no whitespace.
\<close>

definition plain :: "string \<Rightarrow> bool" where
  "plain s = (TAB \<notin> set s \<and> LF \<notin> set s \<and> CR \<notin> set s)"

definition storable :: "path \<times> string \<Rightarrow> bool" where
  "storable x = (case x of (p, r) \<Rightarrow>
     Path (str_path p) = p \<and> plain (str_path p) \<and> \<not> isspace (hd (str_path p)) \<and>
     plain r \<and> r \<noteq> [] \<and> \<not> isspace (last r))"

text \<open>The warning \<^verbatim>\<open>load_report\<close> logs for a record whose file is gone.\<close>

definition skip_warning :: "path \<times> string \<Rightarrow> log_entry" where
  "skip_warning x = WARNING (''File listed in report not found, skipping: '' @ str_path (fst x))"

text \<open>
  A tick is quiet when the loop goes on after it: the process still runs, nobody
  has asked to stop, the time is not up. It is decisive otherwise. The first event
  of a run is its first tick that is not quiet. An environment settles when
  \<^verbatim>\<open>Popen\<close> raises or some tick is decisive: the call then returns.
\<close>

definition quiet :: "int option \<Rightarrow> task_env \<Rightarrow> tick \<Rightarrow> bool" where
  "quiet ANALYSIS_TIMEOUT env t =
     (poll t = None \<and> \<not> quit t \<and> \<not> timeout_elapsed ANALYSIS_TIMEOUT (elapsed t))"

definition decisive :: "int option \<Rightarrow> task_env \<Rightarrow> tick \<Rightarrow> bool" where
  "decisive ANALYSIS_TIMEOUT env t =
     (poll t \<noteq> None \<or> quit t \<or> timeout_elapsed ANALYSIS_TIMEOUT (elapsed t))"

definition settles :: "int option \<Rightarrow> task_env \<Rightarrow> bool" where
  "settles ANALYSIS_TIMEOUT env =
     (isl (popen env) \<or> list_ex (decisive ANALYSIS_TIMEOUT env) (ticks env))"

definition first_event :: "int option \<Rightarrow> task_env \<Rightarrow> tick option" where
  "first_event ANALYSIS_TIMEOUT env =
     (case dropWhile (quiet ANALYSIS_TIMEOUT env) (ticks env) of [] \<Rightarrow> None | t # _ \<Rightarrow> Some t)"


text \<open>
  A verdict is sound for a path when it names that path and, if its reason is
  \<^verbatim>\<open>"Cancelled"\<close>, does not flag the file as corrupted.
\<close>

definition sound_verdict :: "path \<Rightarrow> verdict \<Rightarrow> bool" where
  "sound_verdict original_path v =
     (fst v = original_path \<and> (snd (snd v) = ''Cancelled'' \<longrightarrow> \<not> fst (snd v)))"

text \<open>The path of the staged copy, as \<^verbatim>\<open>check_video_corruption\<close> computes it.\<close>

definition staged_copy :: "task_env \<Rightarrow> string \<Rightarrow> path \<Rightarrow> path" where
  "staged_copy env temp_dir original_path =
     joinpath (Path temp_dir) (urandom_hex env @ ''-'' @ name original_path)"

text \<open>
  Of the results of the futures: the verdicts returned and the texts of the
  exceptions raised, in order. The corrupted records of a list of verdicts are its
  verdicts flagged as corrupted, as pairs of path and reason. \<open>task_failed e\<close> is
  what the pool logs for a future that raised \<open>e\<close>. An outcome belongs to a future
  when, if it is a verdict, it is sound for the path of the future; it is an outcome
  of the future when the analysis of that path, begun in some world, ends with it.
\<close>

fun returned :: "outcome list \<Rightarrow> verdict list" where
  "returned [] = []"
| "returned (Returned v # outs) = v # returned outs"
| "returned (Raised e # outs) = returned outs"

fun raised :: "outcome list \<Rightarrow> string list" where
  "raised [] = []"
| "raised (Returned v # outs) = raised outs"
| "raised (Raised e # outs) = e # raised outs"

definition corrupted_records :: "verdict list \<Rightarrow> (path \<times> string) list" where
  "corrupted_records vs = map (\<lambda>v. (fst v, snd (snd v))) (filter (\<lambda>v. fst (snd v)) vs)"


definition task_failed :: "string \<Rightarrow> log_entry" where
  "task_failed e = ERROR (''An analysis task failed: '' @ e)"

definition belongs_to :: "outcome \<Rightarrow> nat \<times> path \<Rightarrow> bool" where
  "belongs_to out future = (case out of Returned v \<Rightarrow> sound_verdict (snd future) v | Raised e \<Rightarrow> True)"

definition outcome_of :: "int option \<Rightarrow> pool_env \<Rightarrow> bool \<Rightarrow> outcome \<Rightarrow> nat \<times> path \<Rightarrow> bool" where
  "outcome_of T env uc out future =
     (\<exists>w0 w1. check_video_corruption T (env_of env (fst future)) (snd future) uc (mkdtemp env) w0
                = Some (out, w1))"

section \<open>Example data\<close>

definition video_a :: path where "video_a = PurePath ''/'' [''videos'', ''a.mp4'']"
definition video_b :: path where "video_b = PurePath ''/'' [''videos'', ''b.mkv'']"
definition report_txt :: path where "report_txt = PurePath [] [''report.txt'']"

definition world0 :: world where
  "world0 = \<lparr>fs = [video_a \<mapsto> ''A'', video_b \<mapsto> ''B''], STOP_EVENT = False,
             ACTIVE_PROCESSES = {}, spawned = {}, terminated = {}, log = []\<rparr>"


definition two_records :: "(path \<times> string) list" where
  "two_records = [(video_a, ''Corruption detected''), (video_b, ''Timeout (2s)'')]"

text \<open>
  Environments of one analysis: the verifier exits with a given code at the second
  tick; it never exits; \<^verbatim>\<open>Popen\<close> raises; the staged copy cannot be unlinked; the
  process does not die within the grace period; the copy fails.
\<close>

definition env_exit :: "int \<Rightarrow> task_env" where
  "env_exit rc =
     \<lparr>urandom_hex = ''3f9a1c0b7e5d2a48'', copy2_fails = False, copy2_error = [],
      copy2_leaves = None, popen = Inr 7,
      ticks = [\<lparr>poll = None, quit = False, elapsed = 1\<rparr>, \<lparr>poll = Some rc, quit = False, elapsed = 2\<rparr>],
      wait_error = None, quit_in_handler = False, unlink_error = None\<rparr>"

definition env_hang :: task_env where
  "env_hang = (env_exit 0)\<lparr>ticks := [\<lparr>poll = None, quit = False, elapsed = 1\<rparr>,
                                       \<lparr>poll = None, quit = False, elapsed = 3\<rparr>]\<rparr>"

definition env_no_verifier :: task_env where
  "env_no_verifier = (env_exit 0)\<lparr>popen := Inl ''[Errno 2] No such file or directory''\<rparr>"

definition env_unlink_fails :: task_env where
  "env_unlink_fails = (env_exit 0)\<lparr>unlink_error := Some ''[Errno 13] Permission denied''\<rparr>"

definition env_wait_fails :: task_env where
  "env_wait_fails = env_hang\<lparr>wait_error := Some ''timed out after 5 seconds''\<rparr>"

definition tick_exit :: "int \<Rightarrow> tick" where
  "tick_exit rc = \<lparr>poll = Some rc, quit = False, elapsed = 2\<rparr>"

definition tick_late :: tick where
  "tick_late = \<lparr>poll = None, quit = False, elapsed = 3\<rparr>"

definition video_gone :: path where "video_gone = PurePath ''/'' [''videos'', ''gone.avi'']"

definition env_copy_fails :: task_env where
  "env_copy_fails = (env_exit 0)\<lparr>copy2_error := ''[Errno 2] No such file or directory''\<rparr>"

text \<open>
  The copy fails for lack of space after creating the destination, which is left
  empty.
\<close>

definition env_copy_breaks :: task_env where
  "env_copy_breaks = (env_exit 0)\<lparr>copy2_fails := True,
                                   copy2_error := ''[Errno 28] No space left on device'',
                                   copy2_leaves := Some []\<rparr>"

text \<open>The quit key is pressed while the verifier still runs.\<close>

definition env_quit :: task_env where
  "env_quit = (env_exit 0)\<lparr>ticks := [\<lparr>poll = None, quit = False, elapsed = 1\<rparr>,
                                       \<lparr>poll = None, quit = True, elapsed = 2\<rparr>]\<rparr>"

text \<open>
  Environments of the pool. Futures complete in the reverse order of submission.
  In the first, the task submitted first cannot unlink its copy and the others find
  corruption; in the second, the quit key is pressed just before the second check of
  the stop flag; in the third, the verifier of task \<open>i\<close> exits with code \<open>i\<close>.
\<close>

definition pool_env0 :: pool_env where
  "pool_env0 = \<lparr>mkdtemp = ''/tmp/vc'',
                env_of = (\<lambda>i. if i = 0 then env_unlink_fails else env_exit 1),
                as_completed = rev, quit_key = (\<lambda>n. False)\<rparr>"

definition pool_env_quit :: pool_env where
  "pool_env_quit = pool_env0\<lparr>quit_key := (\<lambda>n. n = 1)\<rparr>"

definition pool_env_ok :: pool_env where
  "pool_env_ok = pool_env0\<lparr>env_of := (\<lambda>i. env_exit (int i))\<rparr>"





section \<open>Facts about strings and report lines\<close>

lemma universal_newlines_id: "CR \<notin> set s \<Longrightarrow> universal_newlines s = s"
  by (induction s rule: universal_newlines.induct) auto

lemma readlines_line:
  "LF \<notin> set l \<Longrightarrow> readlines (l @ LF # rest) = (l @ [LF]) # readlines rest"
  by (induction l) auto

lemma isspace_LF: "isspace LF"
  by (simp add: isspace_def LF_def)

lemma lstrip_keep: "s \<noteq> [] \<Longrightarrow> \<not> isspace (hd s) \<Longrightarrow> lstrip (s @ t) = s @ t"
  by (cases s) (simp_all add: lstrip_def)

lemma rstrip_keep: "s \<noteq> [] \<Longrightarrow> \<not> isspace (last s) \<Longrightarrow> rstrip (t @ s @ [LF]) = t @ s"
  by (cases s rule: rev_cases) (simp_all add: rstrip_def isspace_LF)

lemma strip_line:
  assumes "a \<noteq> []" "\<not> isspace (hd a)" "r \<noteq> []" "\<not> isspace (last r)"
  shows "strip (a @ [TAB] @ r @ [LF]) = a @ [TAB] @ r"
proof -
  have "lstrip (a @ [TAB] @ r @ [LF]) = a @ [TAB] @ r @ [LF]"
    using assms(1,2) by (rule lstrip_keep)
  moreover have "rstrip ((a @ [TAB]) @ r @ [LF]) = (a @ [TAB]) @ r"
    using assms(3,4) by (rule rstrip_keep)
  ultimately show ?thesis by (simp add: strip_def)
qed

lemma split_sep_none: "c \<notin> set s \<Longrightarrow> split_sep c s = [s]"
  by (induction s) auto

lemma split_sep_first: "c \<notin> set a \<Longrightarrow> split_sep c (a @ c # r) = a # split_sep c r"
  by (induction a) auto

lemma split_two: "TAB \<notin> set a \<Longrightarrow> TAB \<notin> set r \<Longrightarrow> split_sep TAB (a @ [TAB] @ r) = [a, r]"
  by (simp add: split_sep_first split_sep_none)

lemma str_path_nonempty: "str_path p \<noteq> []"
  by (simp add: str_path_def Let_def)

lemma report_line_pair: "report_line (p, r) = str_path p @ [TAB] @ r @ [LF]"
  by (simp add: report_line_def)

lemma load_line_report_line:
  assumes "storable (p, r)"
  shows "load_line (report_line (p, r)) (cf, w) =
           (if exists p w then (cf @ [(p, r)], w) else (cf, logging (skip_warning (p, r)) w))"
proof -
  from assms have P: "Path (str_path p) = p" and pl: "plain (str_path p)" "plain r"
    and e: "\<not> isspace (hd (str_path p))" "r \<noteq> []" "\<not> isspace (last r)"
    by (simp_all add: storable_def)
  have "strip (report_line (p, r)) = str_path p @ [TAB] @ r"
    unfolding report_line_pair using str_path_nonempty e by (rule strip_line)
  moreover have "split_sep TAB (str_path p @ [TAB] @ r) = [str_path p, r]"
    using pl by (intro split_two) (simp_all add: plain_def)
  ultimately show ?thesis
    by (simp add: load_line_def P skip_warning_def)
qed

lemma readlines_report:
  assumes "\<forall>x\<in>set xs. storable x"
  shows "readlines (concat (map report_line xs)) = map report_line xs"
  using assms
proof (induction xs)
  case Nil
  show ?case by simp
next
  case (Cons x xs)
  obtain p r where x: "x = (p, r)" by (cases x)
  from Cons.prems x have "LF \<notin> set (str_path p @ [TAB] @ r)"
    by (auto simp: storable_def plain_def TAB_def LF_def)
  then have "readlines ((str_path p @ [TAB] @ r) @ LF # concat (map report_line xs))
               = ((str_path p @ [TAB] @ r) @ [LF]) # readlines (concat (map report_line xs))"
    by (rule readlines_line)
  with Cons x show ?case by (simp add: report_line_pair)
qed

lemma report_no_CR:
  assumes "\<forall>x\<in>set xs. storable x"
  shows "CR \<notin> set (concat (map report_line xs))"
  using assms by (auto simp: storable_def plain_def report_line_pair TAB_def LF_def CR_def)

lemma fs_logging [simp]: "fs (logging e w) = fs w"
  by (simp add: logging_def)

lemma exists_logging [simp]: "exists p (logging e w) = exists p w"
  by (simp add: exists_def)

lemma log_logging [simp]: "log (logging e w) = log w @ [e]"
  by (simp add: logging_def)

lemma load_lines_exists: "exists p (snd (load_lines ls cw)) = exists p (snd cw)"
proof (induction ls arbitrary: cw)
  case Nil
  show ?case by simp
next
  case (Cons l ls)
  have "exists p (snd (load_line l cw)) = exists p (snd cw)"
    by (cases cw) (simp add: load_line_def Let_def)
  with Cons show ?case by simp
qed

lemma load_lines_report:
  assumes "\<forall>x\<in>set xs. storable x"
  shows "fst (load_lines (map report_line xs) (cf, w)) = cf @ filter (\<lambda>x. exists (fst x) w) xs
       \<and> log (snd (load_lines (map report_line xs) (cf, w)))
           = log w @ map skip_warning (filter (\<lambda>x. \<not> exists (fst x) w) xs)
       \<and> fs (snd (load_lines (map report_line xs) (cf, w))) = fs w"
  using assms
proof (induction xs arbitrary: cf w)
  case Nil
  show ?case by simp
next
  case (Cons x xs)
  obtain p r where x: "x = (p, r)" by (cases x)
  from Cons.prems x have s: "storable (p, r)" and rest: "\<forall>x\<in>set xs. storable x" by simp_all
  show ?case
  proof (cases "exists p w")
    case True
    with Cons.IH [OF rest, of "cf @ [(p, r)]" w] x s show ?thesis
      by (simp add: load_line_report_line)
  next
    case False
    have ex: "\<And>q. exists q (logging (skip_warning (p, r)) w) = exists q w" by simp
    from False Cons.IH [OF rest, of cf "logging (skip_warning (p, r)) w"] x s show ?thesis
      by (simp add: load_line_report_line ex)
  qed
qed

lemma readlines_LF_last: "l \<in> set (readlines t) \<Longrightarrow> l \<noteq> [] \<and> LF \<notin> set (butlast l)"
proof (induction t arbitrary: l)
  case Nil
  then show ?case by simp
next
  case (Cons x xs)
  show ?case
  proof (cases "x = LF")
    case True
    with Cons show ?thesis by auto
  next
    case False
    show ?thesis
    proof (cases "readlines xs")
      case Nil
      with False Cons.prems show ?thesis by simp
    next
      case (Cons l' ls)
      with Cons.IH [of l'] have l': "l' \<noteq> []" "LF \<notin> set (butlast l')" by simp_all
      from Cons False \<open>l \<in> set (readlines (x # xs))\<close> have "l = x # l' \<or> l \<in> set ls" by simp
      then show ?thesis
      proof
        assume "l = x # l'"
        with l' False show ?thesis by simp
      next
        assume "l \<in> set ls"
        with Cons Cons.IH [of l] show ?thesis by simp
      qed
    qed
  qed
qed

lemma set_rstrip: "set (rstrip s) \<subseteq> set s"
  using set_dropWhileD [of _ isspace "rev s"] by (auto simp: rstrip_def)

lemma set_lstrip: "set (lstrip s) \<subseteq> set s"
  using set_dropWhileD [of _ isspace s] by (auto simp: lstrip_def)

lemma set_strip: "set (strip s) \<subseteq> set s"
  using set_rstrip [of "lstrip s"] set_lstrip [of s] by (auto simp: strip_def)

lemma dropWhile_all: "\<forall>x\<in>set xs. P x \<Longrightarrow> dropWhile P xs = []"
  by (induction xs) auto

lemma strip_snoc_space: "isspace c \<Longrightarrow> strip (b @ [c]) = strip b"
  by (cases "\<forall>x\<in>set b. isspace x")
     (simp_all add: strip_def lstrip_def rstrip_def dropWhile_append dropWhile_all)

lemma strip_no_LF:
  assumes "LF \<notin> set (butlast l)"
  shows "LF \<notin> set (strip l)"
proof (cases l rule: rev_cases)
  case Nil
  then show ?thesis by (simp add: strip_def lstrip_def rstrip_def)
next
  case (snoc b c)
  show ?thesis
  proof (cases "c = LF")
    case True
    with snoc have "strip l = strip b" by (simp add: strip_snoc_space isspace_LF)
    with assms snoc set_strip [of b] show ?thesis by auto
  next
    case False
    with assms snoc have "LF \<notin> set l" by simp
    with set_strip [of l] show ?thesis by auto
  qed
qed

lemma split_sep_nonempty: "split_sep c s \<noteq> []"
  by (induction s) (auto split: list.splits)

lemma split_sep_elem: "x \<in> set (split_sep c s) \<Longrightarrow> c \<notin> set x \<and> set x \<subseteq> set s"
proof (induction s arbitrary: x)
  case Nil
  then show ?case by simp
next
  case (Cons y ys)
  obtain h t where ht: "split_sep c ys = h # t"
    using split_sep_nonempty [of c ys] by (cases "split_sep c ys") auto
  show ?case
  proof (cases "y = c")
    case True
    with Cons show ?thesis by auto
  next
    case False
    with Cons.prems ht have "x = y # h \<or> x \<in> set t" by simp
    then show ?thesis
    proof
      assume "x = y # h"
      with Cons.IH [of h] ht False show ?thesis by auto
    next
      assume "x \<in> set t"
      with Cons.IH [of x] ht show ?thesis by auto
    qed
  qed
qed

text \<open>What one loaded pair looks like.\<close>

lemma load_line_cases:
  "load_line line (cf, w) = (cf', w') \<Longrightarrow>
     (cf' = cf \<or> (\<exists>a r. split_sep TAB (strip line) = [a, r] \<and> exists (Path a) w \<and> cf' = cf @ [(Path a, r)]))"
proof -
  assume a: "load_line line (cf, w) = (cf', w')"
  show ?thesis
  proof (cases "length (split_sep TAB (strip line)) = 2")
    case False
    with a show ?thesis by (simp add: load_line_def Let_def)
  next
    case True
    then obtain x y where xy: "split_sep TAB (strip line) = [x, y]"
      by (cases "split_sep TAB (strip line)"; cases "tl (split_sep TAB (strip line))") auto
    with a show ?thesis by (auto simp: load_line_def Let_def split: if_splits)
  qed
qed

lemma load_lines_origin:
  "(p, r) \<in> set (fst (load_lines ls (cf, w))) \<Longrightarrow>
     (p, r) \<in> set cf \<or> (\<exists>l\<in>set ls. \<exists>a. split_sep TAB (strip l) = [a, r] \<and> p = Path a)"
proof (induction ls arbitrary: cf w)
  case Nil
  then show ?case by simp
next
  case (Cons l ls)
  obtain cf' w' where step: "load_line l (cf, w) = (cf', w')" by (cases "load_line l (cf, w)")
  from Cons.prems step have "(p, r) \<in> set (fst (load_lines ls (cf', w')))" by simp
  from Cons.IH [OF this] show ?case
  proof
    assume "(p, r) \<in> set cf'"
    with load_line_cases [OF step] show ?thesis by auto
  next
    assume "\<exists>l\<in>set ls. \<exists>a. split_sep TAB (strip l) = [a, r] \<and> p = Path a"
    then show ?thesis by auto
  qed
qed

lemma load_report_origin:
  assumes "(p, r) \<in> set (fst (load_report e rf w))"
  shows "\<exists>content. fs w rf = Some content \<and>
           (\<exists>l\<in>set (readlines (universal_newlines content)). \<exists>a. split_sep TAB (strip l) = [a, r] \<and> p = Path a)"
proof (cases "fs w rf")
  case None
  with assms show ?thesis by (simp add: load_report_def)
next
  case (Some content)
  show ?thesis
  proof (cases e)
    case (Some e')
    with \<open>fs w rf = Some content\<close> assms show ?thesis by (simp add: load_report_def)
  next
    case None
    with \<open>fs w rf = Some content\<close> assms
    have "(p, r) \<in> set (fst (load_lines (readlines (universal_newlines content)) ([], w)))"
      by (simp add: load_report_def split: prod.splits)
    from load_lines_origin [OF this] \<open>fs w rf = Some content\<close> show ?thesis by simp
  qed
qed

lemma loaded_reason_plain:
  assumes "l \<in> set (readlines t)" "split_sep TAB (strip l) = [a, r]"
  shows "TAB \<notin> set r \<and> LF \<notin> set r"
proof -
  have "r \<in> set (split_sep TAB (strip l))" using assms(2) by simp
  from split_sep_elem [OF this] have "TAB \<notin> set r" "set r \<subseteq> set (strip l)" by simp_all
  moreover have "LF \<notin> set (strip l)"
    using readlines_LF_last [OF assms(1)] by (intro strip_no_LF) simp
  ultimately show ?thesis by auto
qed

lemma saved_report_loads:
  assumes "\<forall>x\<in>set xs. storable x"
    and "fs w' report_file = fs (save_report None report_file xs w) report_file"
  shows "fst (load_report None report_file w') = filter (\<lambda>x. exists (fst x) w') xs
       \<and> log (snd (load_report None report_file w'))
           = log w' @ map skip_warning (filter (\<lambda>x. \<not> exists (fst x) w') xs)
               @ [INFO (''Report loaded from [bold cyan]'' @ str_path report_file @ ''[/bold cyan]'')]"
proof -
  have f: "fs w' report_file = Some (concat (map report_line xs))"
    using assms(2) by (simp add: save_report_def)
  have u: "universal_newlines (concat (map report_line xs)) = concat (map report_line xs)"
    using report_no_CR [OF assms(1)] by (rule universal_newlines_id)
  have r: "readlines (concat (map report_line xs)) = map report_line xs"
    using assms(1) by (rule readlines_report)
  obtain cf w1 where L: "load_lines (map report_line xs) ([], w') = (cf, w1)"
    by (cases "load_lines (map report_line xs) ([], w')")
  with load_lines_report [OF assms(1), of "[]" w']
  have "cf = filter (\<lambda>x. exists (fst x) w') xs"
    and "log w1 = log w' @ map skip_warning (filter (\<lambda>x. \<not> exists (fst x) w') xs)"
    by simp_all
  then show ?thesis
    by (simp add: load_report_def f u r L)
qed

section \<open>The report round trip\<close>




section \<open>Lines that are not records\<close>

text \<open>
  Claim C10, as amended. \<^verbatim>\<open>load_report\<close> returns only pairs parsed from lines that,
  once stripped, split into exactly two tab-separated fields; any other line (a blank
  line, a line with no tab, a line of three or more fields) is dropped with no
  warning or error. A loaded reason never holds a tab or a line feed, so the round
  trip of save and load holds only for reasons free of both. A record whose reason
  holds a tab or a line feed is therefore dropped or comes back with another reason:
  cut at the line feed, as the counterexample shows, where the claim says dropped.
\<close>

theorem load_report_two_fields:
  "(length (split_sep TAB (strip line)) \<noteq> 2 \<longrightarrow> load_line line cw = cw)
   \<and> ((p, r) \<in> set (fst (load_report e rf w)) \<longrightarrow>
        (\<exists>content. fs w rf = Some content \<and>
           (\<exists>l\<in>set (readlines (universal_newlines content)).
              \<exists>a. split_sep TAB (strip l) = [a, r] \<and> p = Path a))
        \<and> TAB \<notin> set r \<and> LF \<notin> set r)
   \<and> (fst (load_report None rf' (save_report None rf' xs w')) = xs \<longrightarrow>
        (\<forall>x\<in>set xs. TAB \<notin> set (snd x) \<and> LF \<notin> set (snd x)))"
proof -
  have drop: "length (split_sep TAB (strip line)) \<noteq> 2 \<longrightarrow> load_line line cw = cw"
    by (cases cw) (simp add: load_line_def Let_def)
  have origin: "\<And>p r e rf w. (p, r) \<in> set (fst (load_report e rf w)) \<Longrightarrow>
        (\<exists>content. fs w rf = Some content \<and>
           (\<exists>l\<in>set (readlines (universal_newlines content)).
              \<exists>a. split_sep TAB (strip l) = [a, r] \<and> p = Path a))
        \<and> TAB \<notin> set r \<and> LF \<notin> set r"
  proof -
    fix p r e rf w
    assume "(p, r) \<in> set (fst (load_report e rf w))"
    from load_report_origin [OF this] obtain content l a
      where c: "fs w rf = Some content"
        and l: "l \<in> set (readlines (universal_newlines content))"
        and s: "split_sep TAB (strip l) = [a, r]" and p: "p = Path a"
      by blast
    from loaded_reason_plain [OF l s] c l s p
    show "(\<exists>content. fs w rf = Some content \<and>
           (\<exists>l\<in>set (readlines (universal_newlines content)).
              \<exists>a. split_sep TAB (strip l) = [a, r] \<and> p = Path a))
        \<and> TAB \<notin> set r \<and> LF \<notin> set r"
      by blast
  qed
  have only: "fst (load_report None rf' (save_report None rf' xs w')) = xs \<longrightarrow>
        (\<forall>x\<in>set xs. TAB \<notin> set (snd x) \<and> LF \<notin> set (snd x))"
  proof (intro impI ballI)
    fix x
    assume eq: "fst (load_report None rf' (save_report None rf' xs w')) = xs" and x: "x \<in> set xs"
    then have "(fst x, snd x) \<in> set (fst (load_report None rf' (save_report None rf' xs w')))"
      by simp
    from origin [OF this] show "TAB \<notin> set (snd x) \<and> LF \<notin> set (snd x)" by simp
  qed
  from drop origin [of p r e rf w] only show ?thesis by blast
qed

theorem load_report_two_fields_witness:
  "length (split_sep TAB (strip (''no tab'' @ [LF]))) \<noteq> 2
   \<and> load_line (''no tab'' @ [LF]) ([], world0) = ([], world0)
   \<and> (video_a, ''Corruption detected'')
        \<in> set (fst (load_report None report_txt (save_report None report_txt two_records world0)))
   \<and> TAB \<notin> set ''Corruption detected'' \<and> LF \<notin> set ''Corruption detected''
   \<and> fst (load_report None report_txt (save_report None report_txt two_records world0)) = two_records
   \<and> list_all (\<lambda>x. TAB \<notin> set (snd x) \<and> LF \<notin> set (snd x)) two_records"
proof -
  have s: "\<forall>x\<in>set two_records. storable x"
    by (simp add: two_records_def storable_def video_a_def video_b_def str_path_def Path_def
        splitroot_def plain_def isspace_def TAB_def LF_def CR_def)
  have rt: "fst (load_report None report_txt (save_report None report_txt two_records world0))
              = two_records"
    using saved_report_loads [OF s refl, of report_txt world0]
    by (simp add: two_records_def exists_def save_report_def world0_def
        video_a_def video_b_def report_txt_def)
  have n: "length (split_sep TAB (strip (''no tab'' @ [LF]))) \<noteq> 2"
    by (simp add: strip_def lstrip_def rstrip_def isspace_def TAB_def LF_def)
  have m: "(video_a, ''Corruption detected'')
        \<in> set (fst (load_report None report_txt (save_report None report_txt two_records world0)))"
    unfolding rt by (simp add: two_records_def)
  from load_report_two_fields
    [where line = "''no tab'' @ [LF]" and cw = "([], world0)" and p = video_a
       and r = "''Corruption detected''" and e = None and rf = report_txt
       and w = "save_report None report_txt two_records world0"
       and rf' = report_txt and xs = two_records and w' = world0] n m rt
  show ?thesis by (simp add: list_all_iff)
qed

theorem load_report_two_fields_counterexample:
  "fst (load_report None report_txt
         (save_report None report_txt [(video_a, ''a'' @ [LF] @ ''b'')] world0))
     = [(video_a, ''a'')]"
  by code_simp

section \<open>Facts about the analysis of one file\<close>

lemma listener_False [simp]: "listener False w = w"
  by (simp add: listener_def)

lemma listener_fields [simp]:
  "STOP_EVENT (listener k w) = (STOP_EVENT w \<or> k)"
  "fs (listener k w) = fs w"
  "ACTIVE_PROCESSES (listener k w) = ACTIVE_PROCESSES w"
  "spawned (listener k w) = spawned w"
  "terminated (listener k w) = terminated w"
  "log (listener k w) = log w"
  by (simp_all add: listener_def)

lemma terminate_fields [simp]:
  "STOP_EVENT (terminate p w) = STOP_EVENT w"
  "fs (terminate p w) = fs w"
  "ACTIVE_PROCESSES (terminate p w) = ACTIVE_PROCESSES w"
  "spawned (terminate p w) = spawned w"
  "terminated (terminate p w) = insert p (terminated w)"
  "log (terminate p w) = log w"
  by (simp_all add: terminate_def)

lemma exists_fs_cong: "fs w' = fs w \<Longrightarrow> exists p w' = exists p w"
  by (simp add: exists_def)

lemma sound_verdict_simps [simp]:
  "sound_verdict op (op, False, r)"
  "sound_verdict op (op, True, ''Corruption detected'')"
  "sound_verdict op (op, True, timeout_reason T)"
  "sound_verdict op (op, True, ''Unexpected error: '' @ e)"
  "sound_verdict op (op, True, ''Local copy error: '' @ e)"
  by (simp_all add: sound_verdict_def timeout_reason_def)

subsection \<open>The polling loop\<close>

lemma poll_loop_quiet:
  assumes "\<forall>u\<in>set pre. quiet T env u" "\<not> STOP_EVENT w"
  shows "poll_loop T env op p (pre @ ts) w = poll_loop T env op p ts w"
  using assms by (induction pre) (simp_all add: quiet_def)

lemma poll_loop_frame:
  "poll_loop T env op p ts w = Some (res, w') \<Longrightarrow>
     fs w' = fs w \<and> ACTIVE_PROCESSES w' = ACTIVE_PROCESSES w \<and> spawned w' = spawned w
     \<and> log w' = log w \<and> (STOP_EVENT w \<longrightarrow> STOP_EVENT w')
     \<and> (\<forall>v. res = Inr v \<longrightarrow> sound_verdict op v)"
proof (induction ts arbitrary: w)
  case Nil
  then show ?case by simp
next
  case (Cons t ts)
  show ?case
  proof (cases "poll t")
    case (Some rc)
    with Cons.prems show ?thesis by (auto simp: sound_verdict_def split: if_splits)
  next
    case None
    show ?thesis
    proof (cases "STOP_EVENT (listener (quit t) w)")
      case True
      with None Cons.prems show ?thesis
        by (auto simp: Let_def sound_verdict_def split: option.splits)
    next
      case nostop: False
      show ?thesis
      proof (cases "timeout_elapsed T (elapsed t)")
        case True
        with None nostop Cons.prems show ?thesis
          by (auto simp: Let_def sound_verdict_def timeout_reason_def split: option.splits)
      next
        case False
        with None nostop Cons.prems
        have "poll_loop T env op p ts (listener (quit t) w) = Some (res, w')"
          by (simp add: Let_def)
        from Cons.IH [OF this] show ?thesis by simp
      qed
    qed
  qed
qed

lemma poll_loop_settles:
  "list_ex (decisive T env) ts \<Longrightarrow> poll_loop T env op p ts w \<noteq> None"
proof (induction ts arbitrary: w)
  case Nil
  then show ?case by simp
next
  case (Cons t ts)
  show ?case
  proof (cases "decisive T env t")
    case True
    then show ?thesis by (auto simp: decisive_def Let_def split: option.splits)
  next
    case False
    with Cons.prems have "list_ex (decisive T env) ts" by simp
    from Cons.IH [OF this] show ?thesis by (auto simp: Let_def split: option.splits)
  qed
qed

subsection \<open>Handler, try and finally\<close>

lemma except_handler_frame:
  "except_handler env op e w = (v, w') \<Longrightarrow>
     fs w' = fs w \<and> ACTIVE_PROCESSES w' = ACTIVE_PROCESSES w \<and> spawned w' = spawned w
     \<and> log w' = log w \<and> (STOP_EVENT w \<longrightarrow> STOP_EVENT w') \<and> sound_verdict op v"
  by (auto simp: except_handler_def Let_def sound_verdict_def split: if_splits)

lemma try_block_frame:
  assumes "try_block T env op w = Some (v, pr, w')"
  shows "fs w' = fs w \<and> log w' = log w \<and> (STOP_EVENT w \<longrightarrow> STOP_EVENT w') \<and> sound_verdict op v
       \<and> (case pr of None \<Rightarrow> ACTIVE_PROCESSES w' = ACTIVE_PROCESSES w \<and> spawned w' = spawned w
           | Some p \<Rightarrow> ACTIVE_PROCESSES w' = insert p (ACTIVE_PROCESSES w)
                         \<and> spawned w' = insert p (spawned w))"
proof (cases "popen env")
  case (Inl e)
  with assms obtain "except_handler env op e w = (v, w')" and "pr = None"
    by (auto simp: try_block_def split: prod.splits)
  with except_handler_frame [of env op e w v w'] show ?thesis by simp
next
  case (Inr p)
  let ?w1 = "w\<lparr>spawned := insert p (spawned w), ACTIVE_PROCESSES := insert p (ACTIVE_PROCESSES w)\<rparr>"
  from assms Inr obtain res w2 where loop: "poll_loop T env op p (ticks env) ?w1 = Some (res, w2)"
    by (auto simp: try_block_def Let_def split: option.splits)
  note f = poll_loop_frame [OF loop]
  show ?thesis
  proof (cases res)
    case (Inl e)
    with assms \<open>popen env = Inr p\<close> loop
    have h: "except_handler env op e w2 = (v, w')" and pr: "pr = Some p"
      by (auto simp: try_block_def Let_def split: prod.splits)
    from except_handler_frame [OF h] f pr show ?thesis by simp
  next
    case (Inr v')
    with assms \<open>popen env = Inr p\<close> loop have "v = v'" "pr = Some p" "w' = w2"
      by (auto simp: try_block_def Let_def)
    with f Inr show ?thesis by simp
  qed
qed

lemma try_block_settles:
  "settles T env \<Longrightarrow> try_block T env op w \<noteq> None"
  using poll_loop_settles [of T env "ticks env" op]
  by (cases "popen env")
     (auto simp: settles_def try_block_def Let_def split: prod.splits option.splits sum.splits)

lemma deregister_fields [simp]:
  "STOP_EVENT (deregister pr w) = STOP_EVENT w"
  "fs (deregister pr w) = fs w"
  "spawned (deregister pr w) = spawned w"
  "terminated (deregister pr w) = terminated w"
  "log (deregister pr w) = log w"
  "ACTIVE_PROCESSES (deregister pr w) =
     (case pr of None \<Rightarrow> ACTIVE_PROCESSES w | Some p \<Rightarrow> ACTIVE_PROCESSES w - {p})"
  by (cases pr; simp add: deregister_def)+

lemma unstage_frame:
  "unstage env lc w = (r, w') \<Longrightarrow>
     STOP_EVENT w' = STOP_EVENT w \<and> ACTIVE_PROCESSES w' = ACTIVE_PROCESSES w
     \<and> spawned w' = spawned w \<and> terminated w' = terminated w \<and> log w' = log w"
  by (auto simp: unstage_def split: option.splits if_splits)

subsection \<open>The whole call\<close>

lemma finally_block_frame:
  assumes "finally_block env pr lc v w = (out, w')"
  shows "log w' = log w \<and> STOP_EVENT w' = STOP_EVENT w \<and> spawned w' = spawned w
       \<and> terminated w' = terminated w
       \<and> ACTIVE_PROCESSES w' = (case pr of None \<Rightarrow> ACTIVE_PROCESSES w | Some p \<Rightarrow> ACTIVE_PROCESSES w - {p})
       \<and> (out = Returned v \<or> (\<exists>e. out = Raised e))"
proof -
  obtain r w1 where u: "unstage env lc (deregister pr w) = (r, w1)"
    by (cases "unstage env lc (deregister pr w)")
  with assms have "w' = w1" "out = (case r of Some e \<Rightarrow> Raised e | None \<Rightarrow> Returned v)"
    by (auto simp: finally_block_def split: option.splits)
  with unstage_frame [OF u] show ?thesis by (cases r) simp_all
qed

lemma finally_block_unstage:
  assumes "finally_block env pr (Some l) v w = (out, w')" "exists l w"
  shows "(unlink_error env = None \<longrightarrow> out = Returned v \<and> \<not> exists l w')
       \<and> (\<forall>e. unlink_error env = Some e \<longrightarrow> out = Raised e \<and> exists l w')"
  using assms
  by (auto simp: finally_block_def unstage_def exists_def split: option.splits if_splits)

lemma finally_block_no_copy:
  "finally_block env pr None v w = (out, w') \<Longrightarrow> out = Returned v \<and> fs w' = fs w"
  by (auto simp: finally_block_def unstage_def)

lemma analyse_frame:
  assumes "analyse T env op lc w = Some (out, w')"
  shows "log w' = log w \<and> (STOP_EVENT w \<longrightarrow> STOP_EVENT w')
       \<and> ACTIVE_PROCESSES w' \<subseteq> ACTIVE_PROCESSES w \<and> spawned w \<subseteq> spawned w'
       \<and> (\<forall>v. out = Returned v \<longrightarrow> sound_verdict op v)"
proof -
  from assms obtain v pr w1 where t: "try_block T env op w = Some (v, pr, w1)"
    and f: "finally_block env pr lc v w1 = (out, w')"
    by (auto simp: analyse_def split: option.splits)
  from try_block_frame [OF t] finally_block_frame [OF f] show ?thesis
    by (cases pr) auto
qed

lemma analyse_settles: "settles T env \<Longrightarrow> analyse T env op lc w \<noteq> None"
  using try_block_settles [of T env op w] by (auto simp: analyse_def split: option.splits)

lemma analyse_unstage:
  assumes "analyse T env op (Some l) w = Some (out, w')" "exists l w"
  shows "(unlink_error env = None \<longrightarrow> (\<exists>v. out = Returned v) \<and> \<not> exists l w')
       \<and> (\<forall>e. unlink_error env = Some e \<longrightarrow> out = Raised e \<and> exists l w')"
proof -
  from assms obtain v pr w1 where t: "try_block T env op w = Some (v, pr, w1)"
    and f: "finally_block env pr (Some l) v w1 = (out, w')"
    by (auto simp: analyse_def split: option.splits)
  from try_block_frame [OF t] have "fs w1 = fs w" by simp
  with assms(2) have "exists l w1" by (simp add: exists_def)
  from finally_block_unstage [OF f this] show ?thesis by blast
qed

lemma analyse_verdict:
  assumes "try_block T env op w = Some (v, pr, w1)" "lc \<noteq> None \<longrightarrow> unlink_error env = None"
  shows "map_option fst (analyse T env op lc w) = Some (Returned v)"
proof -
  obtain out w' where f: "finally_block env pr lc v w1 = (out, w')"
    by (cases "finally_block env pr lc v w1")
  have "out = Returned v"
    using f assms(2)
    by (cases lc) (auto simp: finally_block_def unstage_def split: option.splits if_splits)
  with assms(1) f show ?thesis by (simp add: analyse_def)
qed

lemma copy2_ok:
  "exists src w \<Longrightarrow> \<not> copy2_fails env \<Longrightarrow>
     copy2 env src dst w = Inr (w\<lparr>fs := (fs w)(dst := fs w src)\<rparr>)"
  by (simp add: copy2_def)

lemma copy2_raises:
  "copy2 env src dst w = Inl (e, w1) \<Longrightarrow>
     e = copy2_error env \<and> (\<not> exists src w \<or> copy2_fails env)
     \<and> log w1 = log w \<and> STOP_EVENT w1 = STOP_EVENT w
     \<and> ACTIVE_PROCESSES w1 = ACTIVE_PROCESSES w \<and> spawned w1 = spawned w
     \<and> terminated w1 = terminated w"
  by (auto simp: copy2_def split: if_splits option.splits)

lemma copy2_frame:
  "copy2 env src dst w = Inr w1 \<Longrightarrow>
     exists dst w1 \<and> log w1 = log w \<and> STOP_EVENT w1 = STOP_EVENT w
     \<and> ACTIVE_PROCESSES w1 = ACTIVE_PROCESSES w \<and> spawned w1 = spawned w
     \<and> terminated w1 = terminated w"
  by (auto simp: copy2_def exists_def split: if_splits)

lemma check_video_corruption_frame:
  assumes "check_video_corruption T env op uc td w = Some (out, w')"
  shows "log w' = log w \<and> (STOP_EVENT w \<longrightarrow> STOP_EVENT w')
       \<and> ACTIVE_PROCESSES w' \<subseteq> ACTIVE_PROCESSES w \<and> spawned w \<subseteq> spawned w'
       \<and> (\<forall>v. out = Returned v \<longrightarrow> sound_verdict op v)"
proof (cases uc)
  case False
  with assms analyse_frame [of T env op None w out w'] show ?thesis
    by (simp add: check_video_corruption_def)
next
  case True
  let ?lc = "joinpath (Path td) (urandom_hex env @ ''-'' @ name op)"
  show ?thesis
  proof (cases "copy2 env op ?lc w")
    case (Inl ew)
    obtain e w1 where ew: "ew = (e, w1)" by (cases ew)
    with Inl True assms have "out = Returned (op, True, ''Local copy error: '' @ e)" "w' = w1"
      by (simp_all add: check_video_corruption_def Let_def)
    with copy2_raises [of env op ?lc w e w1] Inl ew show ?thesis
      by (simp add: sound_verdict_def)
  next
    case (Inr w1)
    with True assms have "analyse T env op (Some ?lc) w1 = Some (out, w')"
      by (simp add: check_video_corruption_def Let_def)
    from analyse_frame [OF this] copy2_frame [OF Inr] show ?thesis by simp
  qed
qed

lemma check_video_corruption_settles:
  assumes "settles T env"
  shows "check_video_corruption T env op uc td w \<noteq> None"
  using analyse_settles [OF assms]
  by (auto simp: check_video_corruption_def Let_def split: sum.splits)

lemma poll_loop_first_event:
  assumes "first_event T env = Some t" "\<not> STOP_EVENT w"
  shows "\<exists>rest. poll_loop T env op p (ticks env) w = poll_loop T env op p (t # rest) w"
proof -
  from assms(1) obtain rest where d: "dropWhile (quiet T env) (ticks env) = t # rest"
    by (auto simp: first_event_def split: list.splits)
  have "ticks env = takeWhile (quiet T env) (ticks env) @ t # rest"
    using takeWhile_dropWhile_id [of "quiet T env" "ticks env"] d by simp
  moreover have "\<forall>u\<in>set (takeWhile (quiet T env) (ticks env)). quiet T env u"
    by (auto dest: set_takeWhileD)
  ultimately have "poll_loop T env op p (ticks env) w = poll_loop T env op p (t # rest) w"
    using poll_loop_quiet [of "takeWhile (quiet T env) (ticks env)" T env w op p "t # rest"] assms(2)
    by simp
  then show ?thesis ..
qed

lemma try_block_exit:
  assumes "popen env = Inr p" "first_event T env = Some t" "\<not> STOP_EVENT w" "poll t = Some rc"
  shows "\<exists>w1. try_block T env op w =
           Some (if rc = 0 then (op, False, ''Healthy'') else (op, True, ''Corruption detected''),
                 Some p, w1)"
proof -
  let ?w1 = "w\<lparr>spawned := insert p (spawned w), ACTIVE_PROCESSES := insert p (ACTIVE_PROCESSES w)\<rparr>"
  from poll_loop_first_event [OF assms(2), of ?w1 op p] assms(3) obtain rest
    where "poll_loop T env op p (ticks env) ?w1 = poll_loop T env op p (t # rest) ?w1" by auto
  with assms(1,4) show ?thesis by (simp add: try_block_def Let_def)
qed

lemma try_block_timeout:
  assumes "popen env = Inr p" "first_event T env = Some t" "\<not> STOP_EVENT w"
    "poll t = None" "\<not> quit t" "timeout_elapsed T (elapsed t)"
  shows "wait_error env = None \<longrightarrow>
           (\<exists>w1. try_block T env op w = Some ((op, True, timeout_reason T), Some p, w1)
                  \<and> p \<in> terminated w1)"
    and "\<forall>e. wait_error env = Some e \<and> \<not> quit_in_handler env \<longrightarrow>
           (\<exists>w1. try_block T env op w = Some ((op, True, ''Unexpected error: '' @ e), Some p, w1))"
proof -
  let ?w1 = "w\<lparr>spawned := insert p (spawned w), ACTIVE_PROCESSES := insert p (ACTIVE_PROCESSES w)\<rparr>"
  from poll_loop_first_event [OF assms(2), of ?w1 op p] assms(3) obtain rest
    where r: "poll_loop T env op p (ticks env) ?w1 = poll_loop T env op p (t # rest) ?w1" by auto
  show "wait_error env = None \<longrightarrow>
           (\<exists>w1. try_block T env op w = Some ((op, True, timeout_reason T), Some p, w1)
                  \<and> p \<in> terminated w1)"
    using r assms by (simp add: try_block_def Let_def)
  show "\<forall>e. wait_error env = Some e \<and> \<not> quit_in_handler env \<longrightarrow>
           (\<exists>w1. try_block T env op w = Some ((op, True, ''Unexpected error: '' @ e), Some p, w1))"
    using r assms by (simp add: try_block_def Let_def except_handler_def)
qed

lemma try_block_popen_raises:
  assumes "popen env = Inl e" "\<not> STOP_EVENT w" "\<not> quit_in_handler env"
  shows "try_block T env op w = Some ((op, True, ''Unexpected error: '' @ e), None, w)"
  using assms by (simp add: try_block_def except_handler_def)

text \<open>From the try statement to the whole call, when staging and cleanup succeed.\<close>

lemma check_video_corruption_verdict:
  assumes "\<And>w1. STOP_EVENT w1 = STOP_EVENT w \<Longrightarrow> \<exists>w2. try_block T env op w1 = Some (v, pr, w2) \<and> Q w2"
    and "\<And>w2 w3 out. Q w2 \<Longrightarrow> terminated w3 = terminated w2 \<Longrightarrow> R w3"
    and "uc \<longrightarrow> exists op w \<and> \<not> copy2_fails env \<and> unlink_error env = None"
  shows "map_option fst (check_video_corruption T env op uc td w) = Some (Returned v)
       \<and> map_option (\<lambda>r. R (snd r)) (check_video_corruption T env op uc td w) = Some True"
proof -
  let ?lc = "if uc then Some (staged_copy env td op) else None"
  let ?w1 = "if uc then w\<lparr>fs := (fs w)(staged_copy env td op := fs w op)\<rparr> else w"
  have c: "check_video_corruption T env op uc td w = analyse T env op ?lc ?w1"
    using assms(3) by (simp add: check_video_corruption_def Let_def copy2_ok staged_copy_def)
  have "STOP_EVENT ?w1 = STOP_EVENT w" by simp
  from assms(1) [OF this] obtain w2 where t: "try_block T env op ?w1 = Some (v, pr, w2)" and q: "Q w2"
    by blast
  obtain out w3 where f: "finally_block env pr ?lc v w2 = (out, w3)"
    by (cases "finally_block env pr ?lc v w2")
  have "?lc \<noteq> None \<longrightarrow> unlink_error env = None" using assms(3) by simp
  from analyse_verdict [OF t this] have o: "map_option fst (analyse T env op ?lc ?w1) = Some (Returned v)" .
  from finally_block_frame [OF f] have "terminated w3 = terminated w2" by simp
  from assms(2) [OF q this] have "R w3" .
  with t f o show ?thesis unfolding c by (simp add: analyse_def)
qed

lemmas example_defs =
  env_exit_def env_hang_def env_no_verifier_def env_unlink_fails_def env_wait_fails_def
  tick_exit_def tick_late_def world0_def video_a_def video_b_def
  first_event_def quiet_def timeout_elapsed_def exists_def

lemma check_video_corruption_unstage:
  assumes "exists original_path w" "\<not> copy2_fails env"
    and "check_video_corruption T env original_path True temp_dir w = Some (out, w')"
  shows "(unlink_error env = None \<longrightarrow>
            (\<exists>v. out = Returned v) \<and> \<not> exists (staged_copy env temp_dir original_path) w')
       \<and> (\<forall>e. unlink_error env = Some e \<longrightarrow>
            out = Raised e \<and> exists (staged_copy env temp_dir original_path) w')"
proof -
  let ?lc = "staged_copy env temp_dir original_path"
  let ?w1 = "w\<lparr>fs := (fs w)(?lc := fs w original_path)\<rparr>"
  from assms have a: "analyse T env original_path (Some ?lc) ?w1 = Some (out, w')"
    by (simp add: check_video_corruption_def Let_def copy2_ok staged_copy_def)
  have "exists ?lc ?w1" using assms(1) by (simp add: exists_def)
  from analyse_unstage [OF a this] show ?thesis .
qed

lemma unstage_twice:
  "unlink_error env = None \<Longrightarrow>
     unstage env lc (snd (unstage env lc w)) = (None, snd (unstage env lc w))"
  by (cases lc) (auto simp: unstage_def exists_def)

lemma unstage_absent: "\<not> exists l w \<Longrightarrow> unstage env (Some l) w = (None, w)"
  by (simp add: unstage_def)

lemma settles_examples:
  "settles None (env_exit rc)" "settles (Some 2) env_hang" "settles None env_unlink_fails"
  by (simp_all add: settles_def decisive_def example_defs)

subsection \<open>The stop flag and the staging copy\<close>






lemma check_video_corruption_copy_breaks:
  assumes "exists original_path w" "copy2_fails env"
    and "check_video_corruption T env original_path True temp_dir w = Some (out, w')"
  shows "out = Returned (original_path, True, ''Local copy error: '' @ copy2_error env)
       \<and> (copy2_leaves env \<noteq> None \<longrightarrow> exists (staged_copy env temp_dir original_path) w')
       \<and> (copy2_leaves env = None \<longrightarrow> w' = w)"
  using assms
  by (auto simp: check_video_corruption_def Let_def copy2_def staged_copy_def exists_def
      split: option.splits)

section \<open>The classification of verdicts\<close>

text \<open>
  Claim C3, as amended. Take a call that starts with the stop flag unset and, when
  the cache is used, whose staging copy succeeds and whose staged copy is unlinked
  without error in the cleanup. If the first event of the run is the exit of the
  verifier, the verdict is \<^verbatim>\<open>(path, False, "Healthy")\<close> for exit code 0 and
  \<^verbatim>\<open>(path, True, "Corruption detected")\<close> for any other code. If the first event is
  the timeout of \<open>s\<close> seconds elapsing and the process is then terminated without an
  exception, \<^verbatim>\<open>terminate()\<close> has been called on the process and the verdict is
  \<^verbatim>\<open>(path, True, "Timeout (s s)")\<close>. If \<^verbatim>\<open>Popen\<close> raises, or terminating the process
  raises, with text \<open>e\<close> and the stop flag still unset in the handler, the verdict is
  \<^verbatim>\<open>(path, True, "Unexpected error: e")\<close>.

  The condition on the cleanup is needed. In the counterexample the call is not
  cancelled and the verifier exits with code 0, but unlinking the staged copy raises
  in the \<^verbatim>\<open>finally\<close> clause: the call raises that error and returns no verdict.
\<close>

theorem verdict_classification:
  assumes "\<not> STOP_EVENT w"
    and "use_cache \<longrightarrow> exists original_path w \<and> \<not> copy2_fails env \<and> unlink_error env = None"
  shows
   "(popen env = Inr p \<and> first_event T env = Some t \<and> poll t = Some 0 \<longrightarrow>
       map_option fst (check_video_corruption T env original_path use_cache temp_dir w)
         = Some (Returned (original_path, False, ''Healthy'')))
  \<and> (popen env = Inr p \<and> first_event T env = Some t \<and> poll t = Some rc \<and> rc \<noteq> 0 \<longrightarrow>
       map_option fst (check_video_corruption T env original_path use_cache temp_dir w)
         = Some (Returned (original_path, True, ''Corruption detected'')))
  \<and> (popen env = Inr p \<and> first_event T env = Some t \<and> poll t = None \<and> \<not> quit t
       \<and> T = Some s \<and> timeout_elapsed T (elapsed t) \<and> wait_error env = None \<longrightarrow>
       map_option fst (check_video_corruption T env original_path use_cache temp_dir w)
         = Some (Returned (original_path, True, ''Timeout ('' @ str_int s @ ''s)''))
       \<and> map_option (\<lambda>r. p \<in> terminated (snd r))
            (check_video_corruption T env original_path use_cache temp_dir w) = Some True)
  \<and> (popen env = Inl e \<and> \<not> quit_in_handler env \<longrightarrow>
       map_option fst (check_video_corruption T env original_path use_cache temp_dir w)
         = Some (Returned (original_path, True, ''Unexpected error: '' @ e)))
  \<and> (popen env = Inr p \<and> first_event T env = Some t \<and> poll t = None \<and> \<not> quit t
       \<and> timeout_elapsed T (elapsed t) \<and> wait_error env = Some e
       \<and> \<not> quit_in_handler env \<longrightarrow>
       map_option fst (check_video_corruption T env original_path use_cache temp_dir w)
         = Some (Returned (original_path, True, ''Unexpected error: '' @ e)))"
proof (intro conjI impI)
  let ?cvc = "check_video_corruption T env original_path use_cache temp_dir w"
  note lift = check_video_corruption_verdict [where Q = "\<lambda>_. True" and R = "\<lambda>_. True", OF _ _ assms(2)]
  {
    assume a: "popen env = Inr p \<and> first_event T env = Some t \<and> poll t = Some 0"
    have "\<And>w1::world. STOP_EVENT w1 = STOP_EVENT w \<Longrightarrow>
            \<exists>w2. try_block T env original_path w1 = Some ((original_path, False, ''Healthy''), Some p, w2) \<and> True"
      using try_block_exit [of env p T t _ 0 original_path] a assms(1) by simp
    from lift [OF this] show "map_option fst ?cvc = Some (Returned (original_path, False, ''Healthy''))"
      by simp
  }
  {
    assume a: "popen env = Inr p \<and> first_event T env = Some t \<and> poll t = Some rc \<and> rc \<noteq> 0"
    have "\<And>w1::world. STOP_EVENT w1 = STOP_EVENT w \<Longrightarrow>
            \<exists>w2. try_block T env original_path w1
                    = Some ((original_path, True, ''Corruption detected''), Some p, w2) \<and> True"
      using try_block_exit [of env p T t _ rc original_path] a assms(1) by simp
    from lift [OF this]
    show "map_option fst ?cvc = Some (Returned (original_path, True, ''Corruption detected''))"
      by simp
  }
  {
    assume a: "popen env = Inr p \<and> first_event T env = Some t \<and> poll t = None \<and> \<not> quit t
       \<and> T = Some s \<and> timeout_elapsed T (elapsed t) \<and> wait_error env = None"
    have "\<And>w1::world. STOP_EVENT w1 = STOP_EVENT w \<Longrightarrow>
            \<exists>w2. try_block T env original_path w1
                    = Some ((original_path, True, ''Timeout ('' @ str_int s @ ''s)''), Some p, w2)
                  \<and> p \<in> terminated w2"
    proof -
      fix w1 :: world
      assume "STOP_EVENT w1 = STOP_EVENT w"
      with assms(1) have n: "\<not> STOP_EVENT w1" by simp
      from a have "popen env = Inr p" "first_event T env = Some t" "poll t = None" "\<not> quit t"
        "timeout_elapsed T (elapsed t)" "wait_error env = None" "T = Some s"
        by blast+
      with try_block_timeout(1) [of env p T t w1 original_path] n
      show "\<exists>w2. try_block T env original_path w1
                    = Some ((original_path, True, ''Timeout ('' @ str_int s @ ''s)''), Some p, w2)
                  \<and> p \<in> terminated w2"
        by (simp add: timeout_reason_def)
    qed
    from check_video_corruption_verdict
      [where Q = "\<lambda>w2. p \<in> terminated w2" and R = "\<lambda>w3. p \<in> terminated w3", OF this _ assms(2)]
    have r: "map_option fst ?cvc = Some (Returned (original_path, True, ''Timeout ('' @ str_int s @ ''s)''))
           \<and> map_option (\<lambda>r. p \<in> terminated (snd r)) ?cvc = Some True"
      by simp
    from r show "map_option fst ?cvc
                   = Some (Returned (original_path, True, ''Timeout ('' @ str_int s @ ''s)''))" ..
    from r show "map_option (\<lambda>r. p \<in> terminated (snd r)) ?cvc = Some True" ..
  }
  {
    assume a: "popen env = Inl e \<and> \<not> quit_in_handler env"
    have "\<And>w1::world. STOP_EVENT w1 = STOP_EVENT w \<Longrightarrow>
            \<exists>w2. try_block T env original_path w1
                    = Some ((original_path, True, ''Unexpected error: '' @ e), None, w2) \<and> True"
      using try_block_popen_raises [of env e _ T original_path] a assms(1) by simp
    from lift [OF this]
    show "map_option fst ?cvc = Some (Returned (original_path, True, ''Unexpected error: '' @ e))"
      by simp
  }
  {
    assume a: "popen env = Inr p \<and> first_event T env = Some t \<and> poll t = None \<and> \<not> quit t
       \<and> timeout_elapsed T (elapsed t) \<and> wait_error env = Some e
       \<and> \<not> quit_in_handler env"
    have "\<And>w1::world. STOP_EVENT w1 = STOP_EVENT w \<Longrightarrow>
            \<exists>w2. try_block T env original_path w1
                    = Some ((original_path, True, ''Unexpected error: '' @ e), Some p, w2) \<and> True"
      using try_block_timeout(2) [of env p T t _ original_path] a assms(1) by simp
    from lift [OF this]
    show "map_option fst ?cvc = Some (Returned (original_path, True, ''Unexpected error: '' @ e))"
      by simp
  }
qed

theorem verdict_classification_witness:
  "map_option fst (check_video_corruption None (env_exit 0) video_a True ''/tmp/vc'' world0)
     = Some (Returned (video_a, False, ''Healthy''))
   \<and> map_option fst (check_video_corruption None (env_exit 1) video_a False ''/tmp/vc'' world0)
     = Some (Returned (video_a, True, ''Corruption detected''))
   \<and> map_option fst (check_video_corruption (Some 2) env_hang video_a False ''/tmp/vc'' world0)
     = Some (Returned (video_a, True, ''Timeout (2s)''))
   \<and> map_option (\<lambda>r. 7 \<in> terminated (snd r))
        (check_video_corruption (Some 2) env_hang video_a False ''/tmp/vc'' world0) = Some True
   \<and> map_option fst (check_video_corruption None env_no_verifier video_a False ''/tmp/vc'' world0)
     = Some (Returned (video_a, True, ''Unexpected error: [Errno 2] No such file or directory''))
   \<and> map_option fst (check_video_corruption (Some 2) env_wait_fails video_a False ''/tmp/vc'' world0)
     = Some (Returned (video_a, True, ''Unexpected error: timed out after 5 seconds''))"
proof -
  have n: "\<not> STOP_EVENT world0" by (simp add: world0_def)
  have c: "True \<longrightarrow> exists video_a world0 \<and> \<not> copy2_fails (env_exit 0) \<and> unlink_error (env_exit 0) = None"
    by (simp add: example_defs)
  have f: "\<And>env. False \<longrightarrow> exists video_a world0 \<and> \<not> copy2_fails env \<and> unlink_error env = None"
    by simp
  have 1: "map_option fst (check_video_corruption None (env_exit 0) video_a True ''/tmp/vc'' world0)
     = Some (Returned (video_a, False, ''Healthy''))"
    using verdict_classification [OF n c, where p = 7 and T = None and t = "tick_exit 0"]
    by (simp add: example_defs)
  have 2: "map_option fst (check_video_corruption None (env_exit 1) video_a False ''/tmp/vc'' world0)
     = Some (Returned (video_a, True, ''Corruption detected''))"
    using verdict_classification [OF n f, where p = 7 and T = None and t = "tick_exit 1" and rc = 1
        and env = "env_exit 1"]
    by (simp add: example_defs)
  have 3: "map_option fst (check_video_corruption (Some 2) env_hang video_a False ''/tmp/vc'' world0)
     = Some (Returned (video_a, True, ''Timeout (2s)''))
   \<and> map_option (\<lambda>r. 7 \<in> terminated (snd r))
        (check_video_corruption (Some 2) env_hang video_a False ''/tmp/vc'' world0) = Some True"
    using verdict_classification [OF n f, where p = 7 and T = "Some 2" and t = tick_late and s = 2
        and env = env_hang]
    by (simp add: example_defs str_int_def digit_char_def)
  have 4: "map_option fst (check_video_corruption None env_no_verifier video_a False ''/tmp/vc'' world0)
     = Some (Returned (video_a, True, ''Unexpected error: [Errno 2] No such file or directory''))"
    using verdict_classification [OF n f, where T = None and env = env_no_verifier
        and e = "''[Errno 2] No such file or directory''"]
    by (simp add: example_defs)
  have 5: "map_option fst (check_video_corruption (Some 2) env_wait_fails video_a False ''/tmp/vc'' world0)
     = Some (Returned (video_a, True, ''Unexpected error: timed out after 5 seconds''))"
    using verdict_classification [OF n f, where p = 7 and T = "Some 2" and t = tick_late
        and env = env_wait_fails and e = "''timed out after 5 seconds''"]
    by (simp add: example_defs)
  from 1 2 3 4 5 show ?thesis by blast
qed

theorem verdict_classification_counterexample:
  "\<not> STOP_EVENT world0
   \<and> popen env_unlink_fails = Inr 7
   \<and> first_event None env_unlink_fails = Some (tick_exit 0)
   \<and> poll (tick_exit 0) = Some 0
   \<and> map_option fst (check_video_corruption None env_unlink_fails video_a True ''/tmp/vc'' world0)
       = Some (Raised ''[Errno 13] Permission denied'')
   \<and> map_option fst (check_video_corruption None env_unlink_fails video_a True ''/tmp/vc'' world0)
       \<noteq> Some (Returned (video_a, False, ''Healthy''))
   \<and> map_option (\<lambda>r. STOP_EVENT (snd r))
        (check_video_corruption None env_unlink_fails video_a True ''/tmp/vc'' world0) = Some False"
proof -
  let ?r = "check_video_corruption None env_unlink_fails video_a True ''/tmp/vc'' world0"
  have 1: "\<not> STOP_EVENT world0" "popen env_unlink_fails = Inr 7"
    "first_event None env_unlink_fails = Some (tick_exit 0)" "poll (tick_exit 0) = Some 0"
    by (simp_all add: example_defs)
  have 2: "map_option fst ?r = Some (Raised ''[Errno 13] Permission denied'')"
    by code_simp
  have 3: "map_option (\<lambda>r. STOP_EVENT (snd r)) ?r = Some False"
    by code_simp
  have 4: "map_option fst ?r \<noteq> Some (Returned (video_a, False, ''Healthy''))"
    unfolding 2 by simp
  from 1 2 3 4 show ?thesis by blast
qed

section \<open>A failed staging copy\<close>

text \<open>
  Claim C5. For every task with \<^verbatim>\<open>use_cache\<close> true whose staging copy fails, because the
  source file does not exist or for any other reason, the call returns at once the
  verdict \<^verbatim>\<open>(path, True, "Local copy error: ...")\<close>; no verifier process is spawned
  and the registry of running processes is what it was.
\<close>

theorem copy_failure_spawns_nothing:
  assumes "use_cache" and "\<not> exists original_path w \<or> copy2_fails env"
  shows "map_option fst (check_video_corruption T env original_path use_cache temp_dir w)
           = Some (Returned (original_path, True, ''Local copy error: '' @ copy2_error env))
       \<and> map_option (\<lambda>r. spawned (snd r))
            (check_video_corruption T env original_path use_cache temp_dir w) = Some (spawned w)
       \<and> map_option (\<lambda>r. ACTIVE_PROCESSES (snd r))
            (check_video_corruption T env original_path use_cache temp_dir w)
           = Some (ACTIVE_PROCESSES w)"
proof -
  let ?lc = "joinpath (Path temp_dir) (urandom_hex env @ ''-'' @ name original_path)"
  from assms(2) have "\<exists>w1. copy2 env original_path ?lc w = Inl (copy2_error env, w1)"
    by (cases "exists original_path w") (simp_all add: copy2_def)
  then obtain w1 where c: "copy2 env original_path ?lc w = Inl (copy2_error env, w1)" ..
  from copy2_raises [OF c] c assms(1) show ?thesis
    by (simp add: check_video_corruption_def Let_def)
qed

theorem copy_failure_spawns_nothing_witness:
  "map_option fst (check_video_corruption None env_copy_fails video_gone True ''/tmp/vc'' world0)
     = Some (Returned (video_gone, True, ''Local copy error: [Errno 2] No such file or directory''))
   \<and> map_option (\<lambda>r. spawned (snd r))
        (check_video_corruption None env_copy_fails video_gone True ''/tmp/vc'' world0) = Some {}
   \<and> map_option (\<lambda>r. ACTIVE_PROCESSES (snd r))
        (check_video_corruption None env_copy_fails video_gone True ''/tmp/vc'' world0) = Some {}"
proof -
  have "\<not> exists video_gone world0 \<or> copy2_fails env_copy_fails"
    by (simp add: exists_def world0_def video_gone_def video_a_def video_b_def)
  from copy_failure_spawns_nothing [OF TrueI this, of None "''/tmp/vc''"] show ?thesis
    by (simp add: env_copy_fails_def env_exit_def world0_def)
qed

section \<open>The removal of the staged copy\<close>

text \<open>
  Claim C8, as amended. Let the original file exist and the call return or raise;
  the analysis itself logs nothing. If the staging copy succeeded, every exit of the
  analysis (healthy, corrupted, timeout, cancellation, exception) passes through the
  cleanup: when unlinking the copy succeeds, the call returns its verdict and the
  copy is gone; an error of the unlinking is not caught in the analysis, it is
  raised in place of the verdict and the copy stays. If the staging copy failed, the
  call returns the verdict \<^verbatim>\<open>"Local copy error: ..."\<close> without entering the cleanup,
  and a destination file that the failed copy had created is still there. The
  cleanup is idempotent when unlinking succeeds: repeating it changes nothing, and it
  does nothing when the copy is already removed.

  The counterexample shows both departures from the claim: an unlinking error that
  is raised, not ignored and not logged, with the copy left on disk; and a copy
  created by a \<^verbatim>\<open>shutil.copy2\<close> that then failed, left on disk at the return.
\<close>

theorem staged_copy_removed:
  assumes "exists original_path w"
    and "check_video_corruption T env original_path True temp_dir w = Some (out, w')"
  shows "log w' = log w
       \<and> (\<not> copy2_fails env \<and> unlink_error env = None \<longrightarrow>
            (\<exists>v. out = Returned v) \<and> \<not> exists (staged_copy env temp_dir original_path) w')
       \<and> (\<forall>e. \<not> copy2_fails env \<and> unlink_error env = Some e \<longrightarrow>
            out = Raised e \<and> exists (staged_copy env temp_dir original_path) w')
       \<and> (copy2_fails env \<longrightarrow>
            out = Returned (original_path, True, ''Local copy error: '' @ copy2_error env)
            \<and> (copy2_leaves env \<noteq> None \<longrightarrow> exists (staged_copy env temp_dir original_path) w'))
       \<and> (unlink_error env = None \<longrightarrow>
            unstage env lc (snd (unstage env lc w0)) = (None, snd (unstage env lc w0)))
       \<and> (\<not> exists l w0 \<longrightarrow> unstage env (Some l) w0 = (None, w0))"
  using check_video_corruption_unstage [OF assms(1) _ assms(2)]
    check_video_corruption_copy_breaks [OF assms(1) _ assms(2)]
    check_video_corruption_frame [OF assms(2)]
    unstage_twice [of env lc w0] unstage_absent [of l w0 env]
  by blast

theorem staged_copy_removed_witness:
  "check_video_corruption (Some 2) env_hang video_a True ''/tmp/vc'' world0 \<noteq> None
   \<and> \<not> exists (staged_copy env_hang ''/tmp/vc'' video_a)
          (snd (the (check_video_corruption (Some 2) env_hang video_a True ''/tmp/vc'' world0)))
   \<and> log (snd (the (check_video_corruption (Some 2) env_hang video_a True ''/tmp/vc'' world0))) = []
   \<and> unstage env_hang (Some video_b) (snd (unstage env_hang (Some video_b) world0))
       = (None, snd (unstage env_hang (Some video_b) world0))
   \<and> unstage env_hang (Some video_gone) world0 = (None, world0)"
proof -
  let ?r = "check_video_corruption (Some 2) env_hang video_a True ''/tmp/vc'' world0"
  have s: "?r \<noteq> None"
    using settles_examples(2) by (rule check_video_corruption_settles)
  then have eq: "?r = Some (fst (the ?r), snd (the ?r))" by auto
  have e: "exists video_a world0" "\<not> copy2_fails env_hang" "unlink_error env_hang = None"
    "\<not> exists video_gone world0" "log world0 = []"
    by (simp_all add: example_defs video_gone_def)
  from staged_copy_removed [OF e(1) eq, where lc = "Some video_b" and ?w0.0 = world0 and l = video_gone]
    s e(2,3,4,5)
  show ?thesis by simp
qed

theorem staged_copy_removed_counterexample:
  "check_video_corruption None env_unlink_fails video_a True ''/tmp/vc'' world0 \<noteq> None
   \<and> fst (the (check_video_corruption None env_unlink_fails video_a True ''/tmp/vc'' world0))
       = Raised ''[Errno 13] Permission denied''
   \<and> exists (staged_copy env_unlink_fails ''/tmp/vc'' video_a)
        (snd (the (check_video_corruption None env_unlink_fails video_a True ''/tmp/vc'' world0)))
   \<and> log (snd (the (check_video_corruption None env_unlink_fails video_a True ''/tmp/vc'' world0)))
       = []
   \<and> exists video_a world0
   \<and> \<not> exists (staged_copy env_copy_breaks ''/tmp/vc'' video_a) world0
   \<and> check_video_corruption None env_copy_breaks video_a True ''/tmp/vc'' world0 \<noteq> None
   \<and> fst (the (check_video_corruption None env_copy_breaks video_a True ''/tmp/vc'' world0))
       = Returned (video_a, True, ''Local copy error: [Errno 28] No space left on device'')
   \<and> exists (staged_copy env_copy_breaks ''/tmp/vc'' video_a)
        (snd (the (check_video_corruption None env_copy_breaks video_a True ''/tmp/vc'' world0)))"
proof -
  let ?r = "check_video_corruption None env_unlink_fails video_a True ''/tmp/vc'' world0"
  let ?c = "check_video_corruption None env_copy_breaks video_a True ''/tmp/vc'' world0"
  have s: "?r \<noteq> None"
    using settles_examples(3) by (rule check_video_corruption_settles)
  then have eq: "?r = Some (fst (the ?r), snd (the ?r))" by auto
  have e: "exists video_a world0" "\<not> copy2_fails env_unlink_fails"
    "unlink_error env_unlink_fails = Some ''[Errno 13] Permission denied''" "log world0 = []"
    by (simp_all add: example_defs)
  from check_video_corruption_unstage [OF e(1,2) eq] s e(3)
  have 1: "?r \<noteq> None \<and> fst (the ?r) = Raised ''[Errno 13] Permission denied''
           \<and> exists (staged_copy env_unlink_fails ''/tmp/vc'' video_a) (snd (the ?r))"
    by simp
  from check_video_corruption_frame [OF eq] e(4) have 2: "log (snd (the ?r)) = []" by simp
  have 3: "\<not> exists (staged_copy env_copy_breaks ''/tmp/vc'' video_a) world0"
    by code_simp
  have t: "?c \<noteq> None"
    by (simp add: check_video_corruption_def Let_def copy2_def env_copy_breaks_def example_defs)
  then have eqc: "?c = Some (fst (the ?c), snd (the ?c))" by auto
  have f: "copy2_fails env_copy_breaks" "copy2_leaves env_copy_breaks \<noteq> None"
    "copy2_error env_copy_breaks = ''[Errno 28] No space left on device''"
    by (simp_all add: env_copy_breaks_def)
  from check_video_corruption_copy_breaks [OF e(1) f(1) eqc] f(2,3) t
  have 4: "?c \<noteq> None
     \<and> fst (the ?c) = Returned (video_a, True, ''Local copy error: [Errno 28] No space left on device'')
     \<and> exists (staged_copy env_copy_breaks ''/tmp/vc'' video_a) (snd (the ?c))"
    by simp
  from 1 2 3 4 e(1) show ?thesis by blast
qed

section \<open>Facts about the worker pool\<close>

lemma corrupted_records_Nil [simp]: "corrupted_records [] = []"
  by (simp add: corrupted_records_def)

lemma returned_append [simp]: "returned (xs @ ys) = returned xs @ returned ys"
  by (induction xs rule: returned.induct) auto

lemma raised_append [simp]: "raised (xs @ ys) = raised xs @ raised ys"
  by (induction xs rule: raised.induct) auto

lemma foldl_record_verdict: "foldl record_verdict acc vs = acc @ corrupted_records vs"
  by (induction vs arbitrary: acc) (auto simp: record_verdict_def corrupted_records_def)

lemma harvest_result_step:
  "harvest_result out (s, w) = (s', w') \<Longrightarrow>
     results s' = results s @ [out] \<and> progress s' = Suc (progress s)
     \<and> corrupted_files s' = corrupted_files s @ corrupted_records (returned [out])
     \<and> log w' = log w @ map task_failed (raised [out])
     \<and> STOP_EVENT w' = STOP_EVENT w \<and> ACTIVE_PROCESSES w' = ACTIVE_PROCESSES w"
  by (cases out)
     (auto simp: harvest_result_def record_verdict_def corrupted_records_def task_failed_def
        logging_def)

lemma harvest_trace:
  "harvest T env uc futures (s, w) = Some (s', w') \<Longrightarrow>
     \<exists>new. results s' = results s @ new
       \<and> progress s' = progress s + length new
       \<and> corrupted_files s' = corrupted_files s @ corrupted_records (returned new)
       \<and> log w' = log w @ map task_failed (raised new)
       \<and> (STOP_EVENT w \<longrightarrow> STOP_EVENT w')
       \<and> ACTIVE_PROCESSES w' \<subseteq> ACTIVE_PROCESSES w
       \<and> list_all2 (outcome_of T env uc) new (take (length new) futures)
       \<and> (\<not> STOP_EVENT w' \<longrightarrow> length new = length futures
             \<and> (\<forall>j<length futures. \<not> quit_key env (progress s + j)))"
proof (induction futures arbitrary: s w)
  case Nil
  then show ?case by (simp add: corrupted_records_def)
next
  case (Cons f futures)
  obtain i vf where f: "f = (i, vf)" by (cases f)
  from Cons.prems f obtain out w1
    where c: "check_video_corruption T (env_of env i) vf uc (mkdtemp env) w = Some (out, w1)"
    by (auto split: option.splits)
  note fr = check_video_corruption_frame [OF c]
  let ?w2 = "listener (quit_key env (progress s)) w1"
  show ?case
  proof (cases "STOP_EVENT ?w2")
    case True
    with Cons.prems f c have "s' = s" "w' = ?w2" by (auto simp: Let_def)
    with True fr show ?thesis by simp
  next
    case False
    obtain s1 w3 where h: "harvest_result out (s, ?w2) = (s1, w3)"
      by (cases "harvest_result out (s, ?w2)")
    note st = harvest_result_step [OF h]
    from Cons.prems f c False h have "harvest T env uc futures (s1, w3) = Some (s', w')"
      by (simp add: Let_def)
    from Cons.IH [OF this] obtain new where n:
      "results s' = results s1 @ new"
      "progress s' = progress s1 + length new"
      "corrupted_files s' = corrupted_files s1 @ corrupted_records (returned new)"
      "log w' = log w3 @ map task_failed (raised new)"
      "STOP_EVENT w3 \<longrightarrow> STOP_EVENT w'"
      "ACTIVE_PROCESSES w' \<subseteq> ACTIVE_PROCESSES w3"
      "list_all2 (outcome_of T env uc) new (take (length new) futures)"
      "\<not> STOP_EVENT w' \<longrightarrow> length new = length futures
             \<and> (\<forall>j<length futures. \<not> quit_key env (progress s1 + j))"
      by blast
    have b: "outcome_of T env uc out f" using c f by (auto simp: outcome_of_def)
    have q: "\<not> quit_key env (progress s)" using False by simp
    have "results s' = results s @ (out # new)" using n(1) st by simp
    moreover have "progress s' = progress s + length (out # new)" using n(2) st by simp
    moreover have "corrupted_files s' = corrupted_files s @ corrupted_records (returned (out # new))"
      using n(3) st by (cases out) (simp_all add: corrupted_records_def)
    moreover have "log w' = log w @ map task_failed (raised (out # new))"
      using n(4) st fr by (cases out) simp_all
    moreover have "STOP_EVENT w \<longrightarrow> STOP_EVENT w'" using False fr by simp
    moreover have "ACTIVE_PROCESSES w' \<subseteq> ACTIVE_PROCESSES w" using n(6) st fr by auto
    moreover have "list_all2 (outcome_of T env uc) (out # new) (take (length (out # new)) (f # futures))"
      using n(7) b by simp
    moreover have "\<not> STOP_EVENT w' \<longrightarrow> length (out # new) = length (f # futures)
             \<and> (\<forall>j<length (f # futures). \<not> quit_key env (progress s + j))"
    proof
      assume "\<not> STOP_EVENT w'"
      with n(8) have l: "length new = length futures"
        and k: "\<forall>j<length futures. \<not> quit_key env (progress s1 + j)" by simp_all
      have "\<forall>j<length (f # futures). \<not> quit_key env (progress s + j)"
      proof (intro allI impI)
        fix j assume j: "j < length (f # futures)"
        show "\<not> quit_key env (progress s + j)"
        proof (cases j)
          case 0
          with q show ?thesis by simp
        next
          case (Suc j')
          with j k st show ?thesis by simp
        qed
      qed
      with l show "length (out # new) = length (f # futures)
             \<and> (\<forall>j<length (f # futures). \<not> quit_key env (progress s + j))" by simp
    qed
    ultimately show ?thesis by blast
  qed
qed

lemma harvest_settles:
  assumes "\<forall>i. settles T (env_of env i)"
  shows "harvest T env uc futures (s, w) \<noteq> None"
proof (induction futures arbitrary: s w)
  case Nil
  show ?case by simp
next
  case (Cons f futures)
  obtain i vf where f: "f = (i, vf)" by (cases f)
  from assms have "settles T (env_of env i)" by simp
  from check_video_corruption_settles [OF this, of vf uc "mkdtemp env" w]
  obtain out w1 where c: "check_video_corruption T (env_of env i) vf uc (mkdtemp env) w = Some (out, w1)"
    by auto
  define w2 where "w2 = listener (quit_key env (progress s)) w1"
  obtain s1 w3 where h: "harvest_result out (s, w2) = (s1, w3)"
    by (cases "harvest_result out (s, w2)")
  have "harvest T env uc (f # futures) (s, w) =
          (if STOP_EVENT w2 then Some (s, w2)
           else harvest T env uc futures (harvest_result out (s, w2)))"
    unfolding f w2_def by (simp only: harvest.simps c option.case prod.case Let_def)
  with Cons [of s1 w3] h show ?case by simp
qed

lemma outcome_of_belongs: "outcome_of T env uc out future \<Longrightarrow> belongs_to out future"
  using check_video_corruption_frame
  by (cases out) (auto simp: outcome_of_def belongs_to_def)

lemma check_video_corruption_returns:
  assumes "check_video_corruption T env op uc td w = Some (out, w')"
    and "uc \<longrightarrow> unlink_error env = None"
  shows "\<exists>v. out = Returned v"
proof (cases uc)
  case False
  with assms(1) obtain v pr w1 where "finally_block env pr None v w1 = (out, w')"
    by (auto simp: check_video_corruption_def analyse_def split: option.splits)
  from finally_block_no_copy [OF this] show ?thesis by blast
next
  case True
  let ?lc = "joinpath (Path td) (urandom_hex env @ ''-'' @ name op)"
  show ?thesis
  proof (cases "copy2 env op ?lc w")
    case (Inl ew)
    with True assms(1) show ?thesis
      by (cases ew) (auto simp: check_video_corruption_def Let_def)
  next
    case (Inr w1)
    with True assms(1) have a: "analyse T env op (Some ?lc) w1 = Some (out, w')"
      by (simp add: check_video_corruption_def Let_def)
    from copy2_frame [OF Inr] have "exists ?lc w1" by simp
    from analyse_unstage [OF a this] assms(2) True show ?thesis by simp
  qed
qed

lemma set_aggregate: "set (aggregate vs) = set (corrupted_records vs)"
  by (simp add: aggregate_def sorted_by_path_def foldl_record_verdict)

lemma aggregate_eq: "aggregate vs = sorted_by_path (corrupted_records vs)"
  by (simp add: aggregate_def foldl_record_verdict)

lemma cleanup_empties: "ACTIVE_PROCESSES (cleanup_active_processes w) = {}"
  by (simp add: cleanup_active_processes_def)

lemma cleanup_fields [simp]:
  "STOP_EVENT (cleanup_active_processes w) = STOP_EVENT w"
  "log (cleanup_active_processes w) = log w"
  "fs (cleanup_active_processes w) = fs w"
  by (simp_all add: cleanup_active_processes_def)

text \<open>What a run that returns has done.\<close>

lemma run_analysis_facts:
  assumes "0 < workers"
    and "run_analysis T env video_files uc workers w = Some (r, s, w')"
  shows "(STOP_EVENT w' \<longrightarrow> r = Inr [] \<and> ACTIVE_PROCESSES w' = {})
     \<and> (STOP_EVENT w \<or> (\<exists>n\<le>length (as_completed env (enumerate 0 video_files)). quit_key env n)
          \<longrightarrow> STOP_EVENT w')
     \<and> progress s = length (results s)
     \<and> corrupted_files s = corrupted_records (returned (results s))
     \<and> list_all2 (outcome_of T env uc) (results s)
          (take (length (results s)) (as_completed env (enumerate 0 video_files)))
     \<and> (\<not> STOP_EVENT w' \<longrightarrow>
          r = Inr (aggregate (returned (results s)))
          \<and> length (results s) = length (as_completed env (enumerate 0 video_files))
          \<and> log w' = log w @ map task_failed (raised (results s)))"
proof -
  let ?futures = "as_completed env (enumerate 0 video_files)"
  let ?s0 = "\<lparr>corrupted_files = [], progress = 0, results = []\<rparr>"
  from assms obtain s1 w1 where h: "harvest T env uc ?futures (?s0, w) = Some (s1, w1)"
    by (auto simp: run_analysis_def Let_def split: option.splits)
  define w2 where "w2 = listener (quit_key env (progress s1)) w1"
  from assms h have r: "s = s1"
    "w' = (if STOP_EVENT w2 then cleanup_active_processes w2 else w2)"
    "r = (if STOP_EVENT w2 then Inr [] else Inr (sorted_by_path (corrupted_files s1)))"
    by (auto simp: run_analysis_def Let_def w2_def split: if_splits)
  from harvest_trace [OF h] obtain new where n:
    "results s1 = new" "progress s1 = length new"
    "corrupted_files s1 = corrupted_records (returned new)"
    "log w1 = log w @ map task_failed (raised new)"
    "STOP_EVENT w \<longrightarrow> STOP_EVENT w1"
    "list_all2 (outcome_of T env uc) new (take (length new) ?futures)"
    "\<not> STOP_EVENT w1 \<longrightarrow> length new = length ?futures
       \<and> (\<forall>j<length ?futures. \<not> quit_key env j)"
    by auto
  have stop': "STOP_EVENT w' = STOP_EVENT w2" using r(2) by simp
  have w2: "STOP_EVENT w2 = (STOP_EVENT w1 \<or> quit_key env (progress s1))"
    "log w2 = log w1" by (simp_all add: w2_def)
  have 1: "STOP_EVENT w' \<longrightarrow> r = Inr [] \<and> ACTIVE_PROCESSES w' = {}"
    using r stop' by (simp add: cleanup_empties)
  have 2: "STOP_EVENT w \<or> (\<exists>n\<le>length ?futures. quit_key env n) \<longrightarrow> STOP_EVENT w'"
  proof (rule ccontr)
    assume "\<not> ?thesis"
    then have c: "STOP_EVENT w \<or> (\<exists>n\<le>length ?futures. quit_key env n)" and ns: "\<not> STOP_EVENT w'"
      by auto
    from ns stop' w2 have a: "\<not> STOP_EVENT w1" "\<not> quit_key env (progress s1)" by simp_all
    with n(7) n(2) have "length new = length ?futures" "\<forall>j<length ?futures. \<not> quit_key env j"
      "\<not> quit_key env (length ?futures)" by simp_all
    then have "\<forall>j\<le>length ?futures. \<not> quit_key env j"
      by (metis le_neq_implies_less)
    with c n(5) a show False by blast
  qed
  have 3: "\<not> STOP_EVENT w' \<longrightarrow>
          r = Inr (aggregate (returned (results s)))
          \<and> length (results s) = length ?futures
          \<and> log w' = log w @ map task_failed (raised (results s))"
    using r stop' w2 n by (auto simp: aggregate_eq)
  from 1 2 3 n r(1) show ?thesis by simp
qed

lemma run_analysis_settles:
  assumes "0 < workers" "\<forall>i. settles T (env_of env i)"
  shows "\<exists>r s w'. run_analysis T env video_files uc workers w = Some (r, s, w')"
proof -
  let ?s0 = "\<lparr>corrupted_files = [], progress = 0, results = []\<rparr>"
  from harvest_settles [OF assms(2), of uc "as_completed env (enumerate 0 video_files)" ?s0 w]
  obtain s1 w1 where "harvest T env uc (as_completed env (enumerate 0 video_files)) (?s0, w) = Some (s1, w1)"
    by auto
  with assms(1) show ?thesis by (simp add: run_analysis_def Let_def)
qed

lemma settles_pool_examples:
  "\<forall>i. settles None (env_of pool_env0 i)"
  "\<forall>i. settles None (env_of pool_env_quit i)"
  "\<forall>i. settles None (env_of pool_env_ok i)"
  by (simp_all add: pool_env0_def pool_env_quit_def pool_env_ok_def settles_def decisive_def
      example_defs)






subsection \<open>The stop flag in the pool\<close>








section \<open>The aggregation of verdicts\<close>




section \<open>Stopping the pool\<close>



section \<open>A task that raises\<close>



section \<open>Facts about the verdicts a run harvests\<close>

lemma outcomes_all_returned:
  assumes "list_all2 (outcome_of T env uc) outs futs"
    and "uc \<longrightarrow> (\<forall>i. unlink_error (env_of env i) = None)"
  shows "raised outs = [] \<and> map fst (returned outs) = map snd futs"
  using assms(1)
proof (induction rule: list_all2_induct)
  case Nil
  show ?case by simp
next
  case (Cons out outs fut futs)
  from Cons.hyps(1) obtain w0 w1
    where c: "check_video_corruption T (env_of env (fst fut)) (snd fut) uc (mkdtemp env) w0
                = Some (out, w1)"
    by (auto simp: outcome_of_def)
  from check_video_corruption_returns [OF c] assms(2) obtain v where v: "out = Returned v"
    by auto
  with check_video_corruption_frame [OF c] have "fst v = snd fut"
    by (simp add: sound_verdict_def)
  with Cons.IH v show ?case by simp
qed

lemma belonging_verdicts_sound:
  assumes "list_all2 belongs_to outs futs"
  shows "\<forall>v\<in>set (returned outs). snd (snd v) = ''Cancelled'' \<longrightarrow> \<not> fst (snd v)"
  using assms
proof (induction rule: list_all2_induct)
  case Nil
  show ?case by simp
next
  case (Cons out outs fut futs)
  then show ?case by (cases out) (auto simp: belongs_to_def sound_verdict_def)
qed

lemma aggregate_no_cancelled:
  assumes "\<forall>v\<in>set vs. snd (snd v) = ''Cancelled'' \<longrightarrow> \<not> fst (snd v)"
  shows "\<forall>x\<in>set (aggregate vs). snd x \<noteq> ''Cancelled''"
  using assms by (auto simp: set_aggregate corrupted_records_def)

section \<open>One verdict for each task\<close>

text \<open>
  Claim C2, as amended. Take a run with at least one worker in which every worker
  settles, \<^verbatim>\<open>as_completed\<close> yields each submitted future once, and, when the cache is
  used, no staged copy fails to be unlinked. Then \<^verbatim>\<open>run_analysis\<close> returns, and if
  the stop flag was never set, no future raised and exactly one verdict was
  harvested for each of the \<open>K\<close> files, naming that file: \<open>K\<close> verdicts, and the
  progress counter stands at \<open>K\<close>. Without the condition on the staged copies a task
  can end with an exception and no verdict, as the counterexample shows.
\<close>

theorem every_task_yields_a_verdict:
  assumes "0 < workers" and "\<forall>i. settles T (env_of env i)"
    and "mset (as_completed env (enumerate 0 video_files)) = mset (enumerate 0 video_files)"
    and "use_cache \<longrightarrow> (\<forall>i. unlink_error (env_of env i) = None)"
  shows "\<exists>r s w'. run_analysis T env video_files use_cache workers w = Some (r, s, w')
           \<and> (\<not> STOP_EVENT w' \<longrightarrow>
                raised (results s) = []
              \<and> length (returned (results s)) = length video_files
              \<and> mset (map fst (returned (results s))) = mset video_files
              \<and> progress s = length video_files)"
proof -
  let ?futs = "as_completed env (enumerate 0 video_files)"
  from run_analysis_settles [OF assms(1,2)] obtain r s w'
    where run: "run_analysis T env video_files use_cache workers w = Some (r, s, w')" by blast
  note f = run_analysis_facts [OF assms(1) run]
  have "\<not> STOP_EVENT w' \<longrightarrow>
                raised (results s) = []
              \<and> length (returned (results s)) = length video_files
              \<and> mset (map fst (returned (results s))) = mset video_files
              \<and> progress s = length video_files"
  proof
    assume "\<not> STOP_EVENT w'"
    with f have l: "length (results s) = length ?futs"
      and t: "list_all2 (outcome_of T env use_cache) (results s) (take (length (results s)) ?futs)"
      and p: "progress s = length (results s)"
      by blast+
    from t have "list_all2 (outcome_of T env use_cache) (results s) ?futs" unfolding l by simp
    from outcomes_all_returned [OF this assms(4)]
    have n: "raised (results s) = []" and m: "map fst (returned (results s)) = map snd ?futs"
      by simp_all
    have "mset (map snd ?futs) = mset (map snd (enumerate 0 video_files))"
      using assms(3) by (metis mset_map)
    then have ms: "mset (map snd ?futs) = mset video_files" by simp
    have "length ?futs = length video_files"
      using assms(3) by (metis length_enumerate size_mset)
    moreover have "length (returned (results s)) = length ?futs"
      using m by (metis length_map)
    ultimately show "raised (results s) = []
              \<and> length (returned (results s)) = length video_files
              \<and> mset (map fst (returned (results s))) = mset video_files
              \<and> progress s = length video_files"
      using n m ms p l by simp
  qed
  with run show ?thesis by blast
qed

theorem every_task_yields_a_verdict_witness:
  "map_option (\<lambda>x. returned (results (fst (snd x))))
     (run_analysis None pool_env_ok [video_a, video_b] True 2 world0)
     = Some [(video_b, True, ''Corruption detected''), (video_a, False, ''Healthy'')]
   \<and> map_option (\<lambda>x. raised (results (fst (snd x))))
        (run_analysis None pool_env_ok [video_a, video_b] True 2 world0) = Some []
   \<and> map_option (\<lambda>x. progress (fst (snd x)))
        (run_analysis None pool_env_ok [video_a, video_b] True 2 world0) = Some 2"
proof -
  let ?run = "run_analysis None pool_env_ok [video_a, video_b] True 2 world0"
  have res: "map_option (\<lambda>x. returned (results (fst (snd x)))) ?run
     = Some [(video_b, True, ''Corruption detected''), (video_a, False, ''Healthy'')]"
    by code_simp
  have ns: "map_option (\<lambda>x. STOP_EVENT (snd (snd x))) ?run = Some False"
    by code_simp
  have perm: "mset (as_completed pool_env_ok (enumerate 0 [video_a, video_b]))
                = mset (enumerate 0 [video_a, video_b])"
    by (simp add: pool_env_ok_def pool_env0_def)
  have ul: "True \<longrightarrow> (\<forall>i. unlink_error (env_of pool_env_ok i) = None)"
    by (simp add: pool_env_ok_def pool_env0_def env_exit_def)
  from every_task_yields_a_verdict [OF _ settles_pool_examples(3) perm ul, of 2 world0]
  obtain r s w' where run: "?run = Some (r, s, w')"
    and c: "\<not> STOP_EVENT w' \<longrightarrow>
                raised (results s) = []
              \<and> length (returned (results s)) = length [video_a, video_b]
              \<and> mset (map fst (returned (results s))) = mset [video_a, video_b]
              \<and> progress s = length [video_a, video_b]"
    by auto
  from ns run have "\<not> STOP_EVENT w'" by simp
  with c res run show ?thesis by simp
qed

theorem every_task_yields_a_verdict_counterexample:
  "run_analysis None pool_env0 [video_a] True 1 world0 \<noteq> None
   \<and> \<not> STOP_EVENT (snd (snd (the (run_analysis None pool_env0 [video_a] True 1 world0))))
   \<and> results (fst (snd (the (run_analysis None pool_env0 [video_a] True 1 world0))))
       = [Raised ''[Errno 13] Permission denied'']
   \<and> returned (results (fst (snd (the (run_analysis None pool_env0 [video_a] True 1 world0)))))
       = []"
  by code_simp

section \<open>Cancelled verdicts\<close>

text \<open>
  Claim C4. A verdict that \<^verbatim>\<open>check_video_corruption\<close> returns with the reason
  \<^verbatim>\<open>"Cancelled"\<close> carries the corruption flag false. For every sequence of verdicts
  whose cancelled members carry the flag false, no record of the aggregated output
  has the reason \<^verbatim>\<open>"Cancelled"\<close>; and no record of the list that \<^verbatim>\<open>run_analysis\<close>
  returns has it.
\<close>

theorem cancelled_is_never_reported:
  "(check_video_corruption T env original_path use_cache temp_dir w
      = Some (Returned (p, c, ''Cancelled''), w') \<longrightarrow> \<not> c)
   \<and> ((\<forall>v\<in>set vs. snd (snd v) = ''Cancelled'' \<longrightarrow> \<not> fst (snd v)) \<longrightarrow>
        (\<forall>x\<in>set (aggregate vs). snd x \<noteq> ''Cancelled''))
   \<and> (run_analysis T' penv video_files use_cache' workers w0 = Some (Inr res, s, w1) \<longrightarrow>
        (\<forall>x\<in>set res. snd x \<noteq> ''Cancelled''))"
proof (intro conjI impI)
  assume "check_video_corruption T env original_path use_cache temp_dir w
            = Some (Returned (p, c, ''Cancelled''), w')"
  from check_video_corruption_frame [OF this] show "\<not> c" by (simp add: sound_verdict_def)
next
  assume "\<forall>v\<in>set vs. snd (snd v) = ''Cancelled'' \<longrightarrow> \<not> fst (snd v)"
  then show "\<forall>x\<in>set (aggregate vs). snd x \<noteq> ''Cancelled''" by (rule aggregate_no_cancelled)
next
  assume run: "run_analysis T' penv video_files use_cache' workers w0 = Some (Inr res, s, w1)"
  then have pos: "0 < workers" by (auto simp: run_analysis_def Let_def split: if_splits)
  note f = run_analysis_facts [OF pos run]
  show "\<forall>x\<in>set res. snd x \<noteq> ''Cancelled''"
  proof (cases "STOP_EVENT w1")
    case True
    with f show ?thesis by simp
  next
    case False
    with f have r: "res = aggregate (returned (results s))"
      and l: "length (results s) = length (as_completed penv (enumerate 0 video_files))"
      and t: "list_all2 (outcome_of T' penv use_cache') (results s)
                (take (length (results s)) (as_completed penv (enumerate 0 video_files)))"
      by blast+
    from t have "list_all2 belongs_to (results s)
                   (take (length (results s)) (as_completed penv (enumerate 0 video_files)))"
      by (rule list_all2_mono) (rule outcome_of_belongs)
    from belonging_verdicts_sound [OF this] show ?thesis
      unfolding r by (rule aggregate_no_cancelled)
  qed
qed

theorem cancelled_is_never_reported_witness:
  "map_option fst (check_video_corruption None env_quit video_a False ''/tmp/vc'' world0)
     = Some (Returned (video_a, False, ''Cancelled''))
   \<and> aggregate [(video_a, False, ''Cancelled''), (video_b, True, ''Corruption detected'')]
       = [(video_b, ''Corruption detected'')]
   \<and> list_all (\<lambda>x. snd x \<noteq> ''Cancelled'')
        (aggregate [(video_a, False, ''Cancelled''), (video_b, True, ''Corruption detected'')])
   \<and> map_option fst (run_analysis None pool_env0 [video_a, video_b] True 2 world0)
       = Some (Inr [(video_b, ''Corruption detected'')])
   \<and> list_all (\<lambda>x. snd x \<noteq> ''Cancelled'') [(video_b, ''Corruption detected'')]"
proof -
  let ?cvc = "check_video_corruption None env_quit video_a False ''/tmp/vc'' world0"
  let ?vs = "[(video_a, False, ''Cancelled''), (video_b, True, ''Corruption detected'')]"
  let ?run = "run_analysis None pool_env0 [video_a, video_b] True 2 world0"
  have a: "map_option fst ?cvc = Some (Returned (video_a, False, ''Cancelled''))" by code_simp
  then have a': "?cvc = Some (Returned (video_a, False, ''Cancelled''), snd (the ?cvc))"
    by (cases ?cvc) auto
  have b: "aggregate ?vs = [(video_b, ''Corruption detected'')]" by code_simp
  have h: "\<forall>v\<in>set ?vs. snd (snd v) = ''Cancelled'' \<longrightarrow> \<not> fst (snd v)" by simp
  have r: "map_option fst ?run = Some (Inr [(video_b, ''Corruption detected'')])" by code_simp
  then have r': "?run = Some (Inr [(video_b, ''Corruption detected'')], fst (snd (the ?run)),
                              snd (snd (the ?run)))"
    by (cases ?run) auto
  from cancelled_is_never_reported
    [where T = None and env = env_quit and original_path = video_a and use_cache = False
       and temp_dir = "''/tmp/vc''" and w = world0 and p = video_a and c = False
       and w' = "snd (the ?cvc)" and vs = ?vs
       and T' = None and penv = pool_env0 and video_files = "[video_a, video_b]"
       and use_cache' = True and workers = 2 and ?w0.0 = world0
       and res = "[(video_b, ''Corruption detected'')]"
       and s = "fst (snd (the ?run))" and ?w1.0 = "snd (snd (the ?run))"]
    a' h r'
  have "(\<forall>x\<in>set (aggregate ?vs). snd x \<noteq> ''Cancelled'')
      \<and> (\<forall>x\<in>set [(video_b, ''Corruption detected'')]. snd x \<noteq> ''Cancelled'')"
    by blast
  with a b r show ?thesis by (simp add: list_all_iff)
qed

end
